theory Spec2Isabelle
  imports Main "HOL-Library.Word" "HOL-Library.Sublist"
begin

section \<open>Data model of keepassxc-unlock\<close>

text \<open>
  The program is a root daemon that talks to logind on the system bus, to KeePassXC on the
  user's session bus, to the file system and to two helper programs. Everything outside the
  process is a \<open>world\<close>: one oracle per system or D-Bus call. Each oracle takes the
  logical time of the call (the number of events the process has produced so far), so that
  the same call may answer differently at different moments. The process itself is a
  \<open>proc\<close>: its effective user id, the one environment variable it sets, and the trace
  of the calls it has made and the lines it has printed.
\<close>

type_synonym uid_t = "32 word"
type_synonym guint32 = "32 word"

text \<open>What \<open>open\<close>/\<open>fopen\<close> and the following reads find at a path.\<close>

datatype fcontent = Cannot_open | Read_error | Contents string

text \<open>The lines the program writes with \<open>print_error\<close>, \<open>print_info\<close>, \<open>perror\<close>.\<close>

datatype message =
    Failed_to_list_sessions
  | Failed_to_get_LockedHint
  | Failed_in_seteuid uid_t
  | Cannot_switch_back_to_root
  | Failed_to_connect_to_session_bus
  | Skipping_unlock_still_locked
  | Failed_to_connect_to_KeePassXC int
  | Skipping_unlock_missing string
  | Sha512sum_failed_to_open
  | Sha512sum_failed_to_read
  | Aborting_unlock_checksum_mismatch guint32 string
  | Failed_to_notify_send
  | Failed_to_open_configuration string
  | Failed_to_run_systemd_creds
  | Password_exceeds string
  | Failed_to_unlock_database string
  | Unlocking_after_unlock_event
  | Unlocking_after_activation_event
  | No_valid_session uid_t
  | Startup_unlocking uid_t
  | Monitoring_session string uid_t

text \<open>
  The observable steps. \<open>Call_unlock_databases\<close> marks the entry into
  \<open>unlock_databases\<close> with its arguments; every other event is a call that leaves the
  process. \<open>Bus_get_session\<close> carries the effective uid under which the session bus was
  contacted, \<open>System_notify_send\<close> the three values formatted into the
  \<open>notify-send\<close> command line (user id, process id, executable path), and
  \<open>Popen_decrypt\<close> the three values formatted into the \<open>systemd-creds\<close> pipeline.
\<close>

datatype event =
    Print message
  | Call_unlock_databases uid_t string int
  | ListSessions
  | Get_LockedHint string
  | Seteuid uid_t
  | Bus_get_session uid_t
  | GetConnectionUnixProcessID string
  | Sleep nat
  | Fopen string
  | Open_read string
  | Readlink string
  | System_notify_send uid_t guint32 string
  | Glob string
  | Popen_decrypt int string string
  | OpenDatabase string string string
  | Exit_process int

text \<open>The properties of a login session that the selector looks at.\<close>

record session_props =
  Type :: string
  Remote :: bool
  Active :: bool

record world =
  KP_CONFIG_DIR :: string
  EVP_sha512 :: "string \<Rightarrow> 8 word list"
  dbus_ListSessions :: "nat \<Rightarrow> (string \<times> guint32 \<times> string \<times> string \<times> string) list option"
  dbus_session_props :: "nat \<Rightarrow> string \<Rightarrow> session_props"
  dbus_LockedHint :: "nat \<Rightarrow> string \<Rightarrow> bool option"
  sys_seteuid :: "nat \<Rightarrow> uid_t \<Rightarrow> bool"
  dbus_session_bus :: "nat \<Rightarrow> uid_t \<Rightarrow> bool"
  dbus_pid_of :: "nat \<Rightarrow> string \<Rightarrow> guint32 option"
  fs_file :: "nat \<Rightarrow> string \<Rightarrow> fcontent"
  fs_readlink :: "nat \<Rightarrow> string \<Rightarrow> string option"
  sys_system :: "nat \<Rightarrow> bool"
  fs_glob :: "nat \<Rightarrow> string \<Rightarrow> string list option"
  sys_popen :: "nat \<Rightarrow> int \<Rightarrow> string \<Rightarrow> string \<Rightarrow> (string \<times> int) option"
  dbus_openDatabase :: "nat \<Rightarrow> string \<Rightarrow> string \<Rightarrow> string \<Rightarrow> bool"

record proc =
  euid :: uid_t
  DBUS_SESSION_BUS_ADDRESS :: "string option"
  trace :: "event list"

definition now :: "proc \<Rightarrow> nat" where
  "now s = length (trace s)"

definition emit :: "event \<Rightarrow> proc \<Rightarrow> proc" where
  "emit e s = s\<lparr>trace := trace s @ [e]\<rparr>"

text \<open>
  A function of the program either returns to its caller or ends the whole process with
  \<open>exit\<close>; both keep the state reached, so that the trace of a terminated process can
  still be inspected.
\<close>

datatype 'a outcome = Exit proc | Ret 'a proc

fun final :: "'a outcome \<Rightarrow> proc" where
  "final (Exit s) = s"
| "final (Ret x s) = s"

fun returned :: "'a outcome \<Rightarrow> bool" where
  "returned (Exit s) = False"
| "returned (Ret x s) = True"

fun ret_value :: "'a outcome \<Rightarrow> 'a option" where
  "ret_value (Exit s) = None"
| "ret_value (Ret x s) = Some x"

subsection \<open>C strings and formatting\<close>

text \<open>A \<open>char\<close> buffer read as a C string ends at its first NUL byte.\<close>

definition cstr :: "string \<Rightarrow> string" where
  "cstr cs = takeWhile (\<lambda>c. c \<noteq> CHR 0x00) cs"

text \<open>\<open>buf[strcspn(buf, "\n")] = '\0'\<close>: the C string cut at its first newline.\<close>

definition chop_newline :: "string \<Rightarrow> string" where
  "chop_newline cs = takeWhile (\<lambda>c. c \<noteq> CHR 0x0A) (cstr cs)"

text \<open>\<open>snprintf\<close> into a buffer of \<open>n\<close> bytes keeps at most \<open>n - 1\<close> characters.\<close>

definition snprintf :: "nat \<Rightarrow> string \<Rightarrow> string" where
  "snprintf n cs = take (n - 1) cs"

function show_nat :: "nat \<Rightarrow> string" where
  "show_nat n =
     (if n < 10 then [''0123456789'' ! n]
      else show_nat (n div 10) @ [''0123456789'' ! (n mod 10)])"
  by pat_completeness auto
termination
  by (relation "measure (\<lambda>n. n)") auto

text \<open>\<open>%d\<close> applied to a 32-bit value prints it as a signed decimal.\<close>

definition printf_d :: "32 word \<Rightarrow> string" where
  "printf_d x = (if sint x < 0 then CHR ''-'' # show_nat (nat (- sint x)) else show_nat (nat (sint x)))"

text \<open>\<open>fgets(buf, n, file)\<close> on the unread rest of a stream: at most \<open>n - 1\<close>
  characters, stopping after a newline; \<open>NULL\<close> at end of file. The result is the line
  read and what is left of the stream.\<close>

fun fgets_line :: "nat \<Rightarrow> string \<Rightarrow> string" where
  "fgets_line n [] = []"
| "fgets_line n (c # cs) =
     (if n = 0 then [] else if c = CHR 0x0A then [c] else c # fgets_line (n - 1) cs)"

definition fgets :: "nat \<Rightarrow> string \<Rightarrow> (string \<times> string) option" where
  "fgets n cs =
     (if cs = [] then None
      else let l = fgets_line (n - 1) cs in Some (l, drop (length l) cs))"

section \<open>The functions of keepassxc-unlock.c\<close>

subsection \<open>is\_locked\<close>

definition is_locked :: "world \<Rightarrow> string \<Rightarrow> proc \<Rightarrow> bool \<times> proc" where
  "is_locked w session_path s =
     (let s1 = emit (Get_LockedHint session_path) s in
      case dbus_LockedHint w (now s) session_path of
        None \<Rightarrow> (True, emit (Print Failed_to_get_LockedHint) s1)
      | Some locked \<Rightarrow> (locked, s1))"

subsection \<open>change\_euid\<close>

text \<open>\<open>seteuid\<close> sets the effective uid when it succeeds and leaves it alone when it
  fails.\<close>

definition change_euid :: "world \<Rightarrow> uid_t \<Rightarrow> proc \<Rightarrow> unit outcome" where
  "change_euid w uid s =
     (if euid s = uid then Ret () s
      else
        let s1 = emit (Seteuid uid) s in
        if sys_seteuid w (now s) uid then Ret () (s1\<lparr>euid := uid\<rparr>)
        else
          let s2 = emit (Print (Failed_in_seteuid uid)) s1 in
          if uid = 0
          then Exit (emit (Exit_process 1) (emit (Print Cannot_switch_back_to_root) s2))
          else Ret () s2)"

subsection \<open>get\_dbus\_service\_process\_id\<close>

definition get_dbus_service_process_id :: "world \<Rightarrow> string \<Rightarrow> bool \<Rightarrow> proc \<Rightarrow> guint32 \<times> proc" where
  "get_dbus_service_process_id w dbus_api log_error s =
     (let s1 = emit (Bus_get_session (euid s)) s in
      if \<not> dbus_session_bus w (now s) (euid s)
      then (0, if log_error then emit (Print Failed_to_connect_to_session_bus) s1 else s1)
      else
        let s2 = emit (GetConnectionUnixProcessID dbus_api) s1 in
        case dbus_pid_of w (now s1) dbus_api of
          Some pid \<Rightarrow> (pid, s2)
        | None \<Rightarrow> (0, s2))"

subsection \<open>sha512sum\<close>

text \<open>Two lowercase hexadecimal digits for a byte: \<open>sprintf("%02x")\<close>.\<close>

definition hex2 :: "8 word \<Rightarrow> string" where
  "hex2 b = [''0123456789abcdef'' ! (unat b div 16), ''0123456789abcdef'' ! (unat b mod 16)]"

text \<open>The conversion loop: \<open>buffer_size\<close> is a \<open>size_t\<close>, so \<open>buffer_size - 2\<close>
  wraps around below 2.\<close>

fun sha512sum_hex :: "8 word list \<Rightarrow> nat \<Rightarrow> nat \<Rightarrow> string \<Rightarrow> string option" where
  "sha512sum_hex [] buf_len buffer_size hash_buffer = Some hash_buffer"
| "sha512sum_hex (h # hs) buf_len buffer_size hash_buffer =
     (if buf_len \<ge> (if buffer_size < 2 then buffer_size + 2 ^ 64 - 2 else buffer_size - 2)
      then None
      else sha512sum_hex hs (buf_len + 2) buffer_size (hash_buffer @ hex2 h))"

text \<open>The result is the filled buffer; \<open>None\<close> is the source's return value 0 on a
  failure, where the buffer holds nothing defined.\<close>

definition sha512sum :: "world \<Rightarrow> string \<Rightarrow> nat \<Rightarrow> proc \<Rightarrow> string option \<times> proc" where
  "sha512sum w path buffer_size s =
     (let s1 = emit (Open_read path) s in
      case fs_file w (now s) path of
        Cannot_open \<Rightarrow> (None, emit (Print Sha512sum_failed_to_open) s1)
      | Read_error \<Rightarrow> (None, emit (Print Sha512sum_failed_to_read) s1)
      | Contents bytes \<Rightarrow> (sha512sum_hex (EVP_sha512 w bytes) 0 buffer_size [], s1))"

subsection \<open>unlock\_databases\<close>

definition KP_DBUS_INTERFACE :: string where
  "KP_DBUS_INTERFACE = ''org.keepassxc.KeePassXC.MainWindow''"

text \<open>\<open>EVP_MAX_MD_SIZE\<close> is 64 in OpenSSL.\<close>

definition SHA512_BUFFER_SIZE :: nat where
  "SHA512_BUFFER_SIZE = 64 * 2 + 1"

definition MAX_PASSWORD_SIZE :: nat where
  "MAX_PASSWORD_SIZE = 4096"

definition PATH_MAX :: nat where
  "PATH_MAX = 4096"

text \<open>
  Lines 207-210, one probe of the session bus: switch to the user, ask the bus for the
  process behind KeePassXC's name, switch back to root.
\<close>

definition unlock_databases_probe :: "world \<Rightarrow> uid_t \<Rightarrow> bool \<Rightarrow> proc \<Rightarrow> guint32 outcome" where
  "unlock_databases_probe w user_id log_error s =
     (case change_euid w user_id s of
        Exit s1 \<Rightarrow> Exit s1
      | Ret _ s1 \<Rightarrow>
          (case get_dbus_service_process_id w KP_DBUS_INTERFACE log_error s1 of
             (kp_pid, s2) \<Rightarrow>
               (case change_euid w 0 s2 of
                  Exit s3 \<Rightarrow> Exit s3
                | Ret _ s3 \<Rightarrow> Ret kp_pid s3)))"

text \<open>
  Lines 203-213, the loop that waits for KeePassXC on the session bus. \<open>i\<close> is the loop
  counter; the result is \<open>kp_pid\<close> when the loop is left, which is 0 when it ran out.
\<close>

function unlock_databases_poll :: "world \<Rightarrow> uid_t \<Rightarrow> int \<Rightarrow> int \<Rightarrow> proc \<Rightarrow> guint32 outcome" where
  "unlock_databases_poll w user_id wait_secs i s =
     (if i < wait_secs then
        (case unlock_databases_probe w user_id (i = wait_secs - 1) s of
           Exit s3 \<Rightarrow> Exit s3
         | Ret kp_pid s3 \<Rightarrow>
             if kp_pid \<noteq> 0 then Ret kp_pid s3
             else unlock_databases_poll w user_id wait_secs (i + 1) (emit (Sleep 1) s3))
      else Ret 0 s)"
  by pat_completeness auto
termination
  by (relation "measure (\<lambda>(w, user_id, wait_secs, i, s). nat (wait_secs - i))") auto

text \<open>
  Lines 219-263, the comparison of the running executable with the recorded checksum.
  The block has two ways out: it falls through to the loop over the configurations
  (\<open>Match\<close>), or \<open>unlock_databases\<close> returns (\<open>Mismatch\<close>).
\<close>

datatype verdict = Match | Mismatch

fun file_fgets :: "nat \<Rightarrow> fcontent \<Rightarrow> (string \<times> string) option" where
  "file_fgets n (Contents cs) = fgets n cs"
| "file_fgets n Read_error = None"
| "file_fgets n Cannot_open = None"

definition unlock_databases_verify :: "world \<Rightarrow> uid_t \<Rightarrow> string \<Rightarrow> guint32 \<Rightarrow> proc \<Rightarrow> verdict \<times> proc" where
  "unlock_databases_verify w user_id user_conf_dir kp_pid s =
     (let kp_sha512_file = snprintf 128 (user_conf_dir @ ''/keepassxc.sha512'');
          s1 = emit (Fopen kp_sha512_file) s
      in case fs_file w (now s) kp_sha512_file of
        Cannot_open \<Rightarrow> (Mismatch, emit (Print (Skipping_unlock_missing kp_sha512_file)) s1)
      | file \<Rightarrow>
          let kp_exe = snprintf 128 (''/proc/'' @ printf_d kp_pid @ ''/exe'');
              (current_sha512, s2) = sha512sum w kp_exe SHA512_BUFFER_SIZE s1;
              mismatch =
                (case current_sha512 of
                   None \<Rightarrow> True
                 | Some current \<Rightarrow>
                     length current = 0 \<or>
                     (case file_fgets SHA512_BUFFER_SIZE file of
                        None \<Rightarrow> True
                      | Some (expected_sha512, _) \<Rightarrow> current \<noteq> chop_newline expected_sha512))
          in if mismatch then
               let s3 = emit (Readlink kp_exe) s2;
                   kp_exe_real =
                     (case fs_readlink w (now s2) kp_exe of
                        None \<Rightarrow> kp_exe
                      | Some target \<Rightarrow>
                          if length (take (PATH_MAX - 1) target) > 0
                          then cstr (take (PATH_MAX - 1) target) else kp_exe);
                   s4 = emit (Print (Aborting_unlock_checksum_mismatch kp_pid kp_exe_real)) s3;
                   s5 = emit (System_notify_send user_id kp_pid kp_exe_real) s4
               in (Mismatch, if sys_system w (now s4) then s5 else emit (Print Failed_to_notify_send) s5)
             else (Match, s2))"

text \<open>Lines 278-295, reading the head of a configuration file line by line.\<close>

function read_conf :: "string \<Rightarrow> string \<Rightarrow> string \<Rightarrow> int \<Rightarrow> string \<times> string \<times> int" where
  "read_conf stream kdbx_file key_file passwd_start_line =
     (case fgets PATH_MAX stream of
        None \<Rightarrow> (kdbx_file, key_file, passwd_start_line)
      | Some (line, rest) \<Rightarrow>
          if take 3 line = ''DB=''
          then read_conf rest (chop_newline (drop 3 line)) key_file (passwd_start_line + 1)
          else if take 4 line = ''KEY=''
          then read_conf rest kdbx_file (chop_newline (drop 4 line)) (passwd_start_line + 1)
          else if take 9 line \<noteq> ''PASSWORD:''
          then (kdbx_file, key_file, passwd_start_line + 1)
          else read_conf rest kdbx_file key_file (passwd_start_line + 1))"
  by pat_completeness auto
termination
proof (relation "measure (\<lambda>(stream, kdbx_file, key_file, n). length stream)")
  have shorter: "length rest < length cs" if "fgets PATH_MAX cs = Some (l, rest)"
    for cs l rest
    using that
    by (cases cs) (auto simp: fgets_def PATH_MAX_def Let_def numeral_eq_Suc split: if_splits)
  show "wf (measure (\<lambda>(stream, kdbx_file, key_file, n). length stream))"
    by simp
  show "((rest, chop_newline (drop 3 line), key_file, passwd_start_line + 1),
          stream, kdbx_file, key_file, passwd_start_line)
        \<in> measure (\<lambda>(stream, kdbx_file, key_file, n). length stream)"
    if "fgets PATH_MAX stream = Some x2" and "(line, rest) = x2"
    for stream kdbx_file key_file passwd_start_line x2 line rest
    using that shorter [of stream line rest] by simp
  show "((rest, kdbx_file, chop_newline (drop 4 line), passwd_start_line + 1),
          stream, kdbx_file, key_file, passwd_start_line)
        \<in> measure (\<lambda>(stream, kdbx_file, key_file, n). length stream)"
    if "fgets PATH_MAX stream = Some x2" and "(line, rest) = x2"
    for stream kdbx_file key_file passwd_start_line x2 line rest
    using that shorter [of stream line rest] by simp
  show "((rest, kdbx_file, key_file, passwd_start_line + 1),
          stream, kdbx_file, key_file, passwd_start_line)
        \<in> measure (\<lambda>(stream, kdbx_file, key_file, n). length stream)"
    if "fgets PATH_MAX stream = Some x2" and "(line, rest) = x2"
    for stream kdbx_file key_file passwd_start_line x2 line rest
    using that shorter [of stream line rest] by simp
qed

fun file_stream :: "fcontent \<Rightarrow> string" where
  "file_stream (Contents cs) = cs"
| "file_stream Read_error = []"
| "file_stream Cannot_open = []"

text \<open>Lines 297-302, the credential name: the base name of the configuration up to its
  first \<open>.conf\<close>, empty when there is no slash or no \<open>.conf\<close>. The buffer holds 128
  bytes; a longer name leaves it without a terminator in the source.\<close>

fun strstr :: "string \<Rightarrow> string \<Rightarrow> nat option" where
  "strstr [] needle = (if needle = [] then Some 0 else None)"
| "strstr (c # cs) needle =
     (if take (length needle) (c # cs) = needle then Some 0
      else map_option Suc (strstr cs needle))"

definition conf_name_of :: "string \<Rightarrow> string" where
  "conf_name_of conf_path =
     (let p = cstr conf_path in
      if CHR ''/'' \<notin> set p then []
      else
        let conf_filename = rev (takeWhile (\<lambda>c. c \<noteq> CHR ''/'') (rev p)) in
        case strstr conf_filename ''.conf'' of
          None \<Rightarrow> []
        | Some conf_name_len \<Rightarrow> take (min conf_name_len 128) conf_filename)"

text \<open>Lines 271-317, the first half of the body of the loop over the configurations:
  the file is opened and read, and the pipeline \<open>tail | systemd-creds decrypt\<close> is run
  on it. \<open>sys_popen\<close> answers \<open>None\<close> when \<open>popen\<close> fails, and otherwise what the
  pipeline writes to its output together with the status that \<open>pclose\<close> returns; the
  source calls \<open>pclose\<close> as a statement (line 312), so the status is not looked at. The
  result is \<open>None\<close> where the source says \<open>continue\<close>, and otherwise the three strings
  passed on to KeePassXC.\<close>

definition unlock_databases_decrypt ::
  "world \<Rightarrow> string \<Rightarrow> proc \<Rightarrow> (string \<times> string \<times> string) option \<times> proc" where
  "unlock_databases_decrypt w conf_path s =
     (let s1 = emit (Fopen conf_path) s
      in case fs_file w (now s) conf_path of
        Cannot_open \<Rightarrow> (None, emit (Print (Failed_to_open_configuration conf_path)) s1)
      | file \<Rightarrow>
          (case read_conf (file_stream file) [] [] 0 of
             (kdbx_file, key_file, passwd_start_line) \<Rightarrow>
               let conf_name = conf_name_of conf_path;
                   s2 = emit (Popen_decrypt passwd_start_line conf_path conf_name) s1
               in case sys_popen w (now s1) passwd_start_line conf_path conf_name of
                 None \<Rightarrow> (None, emit (Print Failed_to_run_systemd_creds) s2)
               | Some (output, status) \<Rightarrow>
                   let bytes_read = min (length output) MAX_PASSWORD_SIZE
                   in if bytes_read = MAX_PASSWORD_SIZE
                      then (None, emit (Print (Password_exceeds kdbx_file)) s2)
                      else (Some (kdbx_file, cstr (take bytes_read output), key_file), s2)))"

text \<open>Lines 319-341, the second half: the call of \<open>openDatabase\<close> on the user's
  session bus, between \<open>change_euid(user_id)\<close> and \<open>change_euid(0)\<close>.\<close>

definition unlock_databases_open ::
  "world \<Rightarrow> uid_t \<Rightarrow> string \<Rightarrow> string \<Rightarrow> string \<Rightarrow> proc \<Rightarrow> unit outcome" where
  "unlock_databases_open w user_id kdbx_file decrypted_passwd key_file s2 =
     (case change_euid w user_id s2 of
        Exit s3 \<Rightarrow> Exit s3
      | Ret _ s3 \<Rightarrow>
          let s4 = emit (Bus_get_session (euid s3)) s3
          in if \<not> dbus_session_bus w (now s3) (euid s3)
             then change_euid w 0 (emit (Print Failed_to_connect_to_session_bus) s4)
             else
               let s5 = emit (OpenDatabase kdbx_file decrypted_passwd key_file) s4;
                   s6 = (if dbus_openDatabase w (now s4) kdbx_file decrypted_passwd key_file
                         then s5
                         else emit (Print (Failed_to_unlock_database kdbx_file)) s5)
               in change_euid w 0 s6)"

definition unlock_databases_record :: "world \<Rightarrow> uid_t \<Rightarrow> string \<Rightarrow> proc \<Rightarrow> unit outcome" where
  "unlock_databases_record w user_id conf_path s =
     (case unlock_databases_decrypt w conf_path s of
        (None, s2) \<Rightarrow> Ret () s2
      | (Some (kdbx_file, decrypted_passwd, key_file), s2) \<Rightarrow>
          unlock_databases_open w user_id kdbx_file decrypted_passwd key_file s2)"

fun unlock_databases_records :: "world \<Rightarrow> uid_t \<Rightarrow> string list \<Rightarrow> proc \<Rightarrow> unit outcome" where
  "unlock_databases_records w user_id [] s = Ret () s"
| "unlock_databases_records w user_id (conf_path # rest) s =
     (case unlock_databases_record w user_id conf_path s of
        Exit s1 \<Rightarrow> Exit s1
      | Ret _ s1 \<Rightarrow> unlock_databases_records w user_id rest s1)"

definition unlock_databases :: "world \<Rightarrow> uid_t \<Rightarrow> string \<Rightarrow> int \<Rightarrow> proc \<Rightarrow> unit outcome" where
  "unlock_databases w user_id session_path wait_secs s0 =
     (let s = emit (Call_unlock_databases user_id session_path wait_secs) s0
      in case is_locked w session_path s of
        (True, s1) \<Rightarrow> Ret () (emit (Print Skipping_unlock_still_locked) s1)
      | (False, s1) \<Rightarrow>
          let dbus_address = snprintf 128 (''unix:path=/run/user/'' @ printf_d user_id @ ''/bus'');
              user_conf_dir = snprintf 100 (KP_CONFIG_DIR w @ ''/'' @ printf_d user_id);
              s2 = s1\<lparr>DBUS_SESSION_BUS_ADDRESS := Some dbus_address\<rparr>
          in case unlock_databases_poll w user_id wait_secs 0 s2 of
            Exit s3 \<Rightarrow> Exit s3
          | Ret kp_pid s3 \<Rightarrow>
              if kp_pid = 0
              then Ret () (emit (Print (Failed_to_connect_to_KeePassXC wait_secs)) s3)
              else
                (case unlock_databases_verify w user_id user_conf_dir kp_pid s3 of
                   (Mismatch, s4) \<Rightarrow> Ret () s4
                 | (Match, s4) \<Rightarrow>
                     let conf_pattern = snprintf 128 (user_conf_dir @ ''/*.conf'');
                         s5 = emit (Glob conf_pattern) s4
                     in case fs_glob w (now s4) conf_pattern of
                       None \<Rightarrow> Ret () s5
                     | Some gl_pathv \<Rightarrow> unlock_databases_records w user_id gl_pathv s5))"

subsection \<open>select\_session\<close>

text \<open>
  Modelled from the spec: \<open>session_valid_for_unlock\<close> is declared in
  \<open>keepassxc-unlock-common.h\<close> and defined beside it, neither of which is among the
  sources. The spec (4.1) asks for a session whose type is a local graphical type, which
  is not remote, and whose active flag is true; the comment at the call (line 50) names the
  graphical types: \<open>Type=x11|wayland, Remote=false, Active=true\<close>. The properties are
  those logind reports at the time of the \<open>ListSessions\<close> call.
\<close>

definition session_valid_for_unlock :: "world \<Rightarrow> nat \<Rightarrow> string \<Rightarrow> bool" where
  "session_valid_for_unlock w t session_path =
     (let p = dbus_session_props w t session_path
      in (Type p = ''x11'' \<or> Type p = ''wayland'') \<and> \<not> Remote p \<and> Active p)"

text \<open>Lines 52-61, the loop over the reply \<open>a(susso)\<close> of \<open>ListSessions\<close>: session
  id, user id, user name, seat, session path.\<close>

fun select_session_loop ::
  "(string \<Rightarrow> bool) \<Rightarrow> uid_t \<Rightarrow> (string \<times> guint32 \<times> string \<times> string \<times> string) list \<Rightarrow> string option" where
  "select_session_loop valid user_id [] = None"
| "select_session_loop valid user_id ((sid, uid, name, seat, session_path) # rest) =
     (if user_id \<noteq> uid then select_session_loop valid user_id rest
      else if valid session_path then Some session_path
      else select_session_loop valid user_id rest)"

definition select_session :: "world \<Rightarrow> uid_t \<Rightarrow> proc \<Rightarrow> string option \<times> proc" where
  "select_session w user_id s =
     (let s1 = emit ListSessions s
      in case dbus_ListSessions w (now s) of
        None \<Rightarrow> (None, emit (Print Failed_to_list_sessions) s1)
      | Some sessions \<Rightarrow>
          (select_session_loop (session_valid_for_unlock w (now s)) user_id sessions, s1))"

subsection \<open>handle\_session\_event\<close>

text \<open>The \<open>user_data\<close> of the callbacks, without the pointer to the main loop.\<close>

record session_loop_data =
  sd_session_path :: string
  sd_user_id :: uid_t
  session_locked :: bool
  session_active :: bool

text \<open>A value of the dictionary \<open>a{sv}\<close> of a \<open>PropertiesChanged\<close> signal.
  \<open>g_variant_get_boolean\<close> answers \<open>FALSE\<close> for a value that is not a boolean.\<close>

datatype gvariant = GBoolean bool | GOther

fun g_variant_get_boolean :: "gvariant \<Rightarrow> bool" where
  "g_variant_get_boolean (GBoolean b) = b"
| "g_variant_get_boolean GOther = False"

text \<open>Lines 373-387, the body of the loop over the changed properties.\<close>

definition handle_session_event_entry ::
  "world \<Rightarrow> string \<times> gvariant \<Rightarrow> session_loop_data \<Rightarrow> proc \<Rightarrow> session_loop_data outcome" where
  "handle_session_event_entry w kv session_data s =
     (case kv of (key, val) \<Rightarrow>
        if key = ''LockedHint'' then
          let locked = g_variant_get_boolean val
          in case (if \<not> locked \<and> session_locked session_data
                   then unlock_databases w (sd_user_id session_data)
                          (sd_session_path session_data) 10
                          (emit (Print Unlocking_after_unlock_event) s)
                   else Ret () s) of
               Exit s1 \<Rightarrow> Exit s1
             | Ret _ s1 \<Rightarrow> Ret (session_data\<lparr>session_locked := locked\<rparr>) s1
        else if key = ''Active'' then
          let active = g_variant_get_boolean val
          in case (if active \<and> \<not> session_active session_data \<and> \<not> session_locked session_data
                   then unlock_databases w (sd_user_id session_data)
                          (sd_session_path session_data) 30
                          (emit (Print Unlocking_after_activation_event) s)
                   else Ret () s) of
               Exit s1 \<Rightarrow> Exit s1
             | Ret _ s1 \<Rightarrow> Ret (session_data\<lparr>session_active := active\<rparr>) s1
        else Ret session_data s)"

fun handle_session_event ::
  "world \<Rightarrow> (string \<times> gvariant) list \<Rightarrow> session_loop_data \<Rightarrow> proc \<Rightarrow> session_loop_data outcome" where
  "handle_session_event w [] session_data s = Ret session_data s"
| "handle_session_event w (kv # rest) session_data s =
     (case handle_session_event_entry w kv session_data s of
        Exit s1 \<Rightarrow> Exit s1
      | Ret session_data1 s1 \<Rightarrow> handle_session_event w rest session_data1 s1)"

subsection \<open>main\<close>

text \<open>Lines 447-453, the search for the session at startup; \<open>i\<close> is the loop counter.\<close>

function main_select_session :: "world \<Rightarrow> uid_t \<Rightarrow> int \<Rightarrow> proc \<Rightarrow> string option \<times> proc" where
  "main_select_session w user_id i s =
     (if i < 30 then
        (case select_session w user_id s of
           (Some session_path, s1) \<Rightarrow> (Some session_path, s1)
         | (None, s1) \<Rightarrow> main_select_session w user_id (i + 1) (emit (Sleep 1) s1))
      else (None, s))"
  by pat_completeness auto
termination
  by (relation "measure (\<lambda>(w, user_id, i, s). nat (30 - i))") auto

text \<open>Lines 447-470: the session is selected, the databases are unlocked once, and the
  \<open>user_data\<close> of the two subscriptions is set up. The result is \<open>None\<close> when
  \<open>main\<close> returns because no session was found.\<close>

definition main_start :: "world \<Rightarrow> uid_t \<Rightarrow> proc \<Rightarrow> session_loop_data option outcome" where
  "main_start w user_id s =
     (case main_select_session w user_id 0 s of
        (None, s1) \<Rightarrow> Ret None (emit (Print (No_valid_session user_id)) s1)
      | (Some session_path, s1) \<Rightarrow>
          (case unlock_databases w user_id session_path 60
                  (emit (Print (Startup_unlocking user_id)) s1) of
             Exit s2 \<Rightarrow> Exit s2
           | Ret _ s2 \<Rightarrow>
               Ret (Some \<lparr>sd_session_path = session_path, sd_user_id = user_id,
                          session_locked = False, session_active = True\<rparr>)
                   (emit (Print (Monitoring_session session_path user_id)) s2)))"

section \<open>Observations on traces\<close>

fun is_call :: "event \<Rightarrow> bool" where
  "is_call (Call_unlock_databases user_id session_path wait_secs) = True"
| "is_call e = False"

fun is_probe :: "event \<Rightarrow> bool" where
  "is_probe (Bus_get_session u) = True"
| "is_probe e = False"

fun is_list_sessions :: "event \<Rightarrow> bool" where
  "is_list_sessions ListSessions = True"
| "is_list_sessions e = False"

fun is_alert :: "event \<Rightarrow> bool" where
  "is_alert (System_notify_send user_id pid exe) = True"
| "is_alert e = False"

fun is_decrypt :: "event \<Rightarrow> bool" where
  "is_decrypt (Popen_decrypt n conf_path conf_name) = True"
| "is_decrypt e = False"

fun is_unlock :: "event \<Rightarrow> bool" where
  "is_unlock (OpenDatabase kdbx_file passwd key_file) = True"
| "is_unlock e = False"

fun is_fopen :: "event \<Rightarrow> bool" where
  "is_fopen (Fopen path) = True"
| "is_fopen e = False"

text \<open>Everything an invocation does after the check of the lock hint: contacting the
  session bus, opening or hashing files, running helper programs, calling KeePassXC.\<close>

fun is_pipeline_step :: "event \<Rightarrow> bool" where
  "is_pipeline_step (Print m) = False"
| "is_pipeline_step (Call_unlock_databases user_id session_path wait_secs) = False"
| "is_pipeline_step ListSessions = False"
| "is_pipeline_step (Get_LockedHint session_path) = False"
| "is_pipeline_step e = True"

text \<open>The seconds slept in a trace.\<close>

fun slept :: "event list \<Rightarrow> nat" where
  "slept [] = 0"
| "slept (Sleep n # es) = n + slept es"
| "slept (e # es) = slept es"

text \<open>The value a notification leaves for a property: that of its last entry for the key,
  and the old value when it has none.\<close>

fun last_value :: "string \<Rightarrow> (string \<times> gvariant) list \<Rightarrow> bool \<Rightarrow> bool" where
  "last_value key [] old = old"
| "last_value key ((k, v) # kvs) old =
     last_value key kvs (if k = key then g_variant_get_boolean v else old)"

text \<open>
  The invocations the spec (4.4) asks of one notification, entry by entry: a lock hint
  that goes from true to false asks for one with a wait of 10 seconds, an active flag
  that goes from false to true while the recorded lock state is false asks for one with
  a wait of 30 seconds, and each entry leaves its value recorded for the entries after it.
\<close>

fun triggered :: "session_loop_data \<Rightarrow> (string \<times> gvariant) list \<Rightarrow> event list" where
  "triggered d [] = []"
| "triggered d ((key, val) # kvs) =
     (if key = ''LockedHint'' then
        (if \<not> g_variant_get_boolean val \<and> session_locked d
         then [Call_unlock_databases (sd_user_id d) (sd_session_path d) 10] else []) @
        triggered (d\<lparr>session_locked := g_variant_get_boolean val\<rparr>) kvs
      else if key = ''Active'' then
        (if g_variant_get_boolean val \<and> \<not> session_active d \<and> \<not> session_locked d
         then [Call_unlock_databases (sd_user_id d) (sd_session_path d) 30] else []) @
        triggered (d\<lparr>session_active := g_variant_get_boolean val\<rparr>) kvs
      else triggered d kvs)"

section \<open>Sample worlds\<close>

text \<open>A root process that has done nothing yet, and a world in which every call succeeds:
  user 1000 has a remote text session and two Wayland sessions, KeePassXC runs as process
  4242, its executable hashes to the recorded \<open>abc123\<close>, and three databases are
  configured.\<close>

definition root_proc :: proc where
  "root_proc = \<lparr>euid = 0, DBUS_SESSION_BUS_ADDRESS = None, trace = []\<rparr>"

definition user_proc :: proc where
  "user_proc = \<lparr>euid = 1000, DBUS_SESSION_BUS_ADDRESS = None, trace = []\<rparr>"

definition world_ok :: world where
  "world_ok =
     \<lparr>KP_CONFIG_DIR = ''/etc/keepassxc-unlock'',
      EVP_sha512 = (\<lambda>bytes. [0xAB, 0xC1, 0x23]),
      dbus_ListSessions =
        (\<lambda>t. Some [(''c1'', 1001, ''bob'', ''seat0'', ''/session/c1''),
                    (''c2'', 1000, ''ann'', ''none'', ''/session/c2''),
                    (''c3'', 1000, ''ann'', ''seat0'', ''/session/c3''),
                    (''c4'', 1000, ''ann'', ''seat0'', ''/session/c4'')]),
      dbus_session_props =
        (\<lambda>t p. if p = ''/session/c2'' then \<lparr>Type = ''tty'', Remote = True, Active = True\<rparr>
                else \<lparr>Type = ''wayland'', Remote = False, Active = True\<rparr>),
      dbus_LockedHint = (\<lambda>t p. Some False),
      sys_seteuid = (\<lambda>t u. True),
      dbus_session_bus = (\<lambda>t u. True),
      dbus_pid_of = (\<lambda>t n. Some 4242),
      fs_file =
        (\<lambda>t p. if p = ''/etc/keepassxc-unlock/1000/keepassxc.sha512''
                then Contents (''abc123'' @ [CHR 0x0A])
                else Contents (''DB=/home/ann/a.kdbx'' @ [CHR 0x0A] @ ''PASSWORD:'' @ [CHR 0x0A] @ ''xyz'')),
      fs_readlink = (\<lambda>t p. Some ''/usr/bin/keepassxc''),
      sys_system = (\<lambda>t. True),
      fs_glob = (\<lambda>t p. Some [''/c/a.conf'', ''/c/b.conf'', ''/c/c.conf'']),
      sys_popen = (\<lambda>t n p c. Some (''secret'', 0)),
      dbus_openDatabase = (\<lambda>t d p k. True)\<rparr>"

text \<open>The same world with a kernel that refuses every \<open>seteuid\<close>.\<close>

definition world_stuck :: world where
  "world_stuck = world_ok\<lparr>sys_seteuid := (\<lambda>t u. False)\<rparr>"

text \<open>Worlds that differ from \<open>world_ok\<close> in one answer each: the lock hint cannot be
  read; the session is locked; KeePassXC is not on the bus; the recorded checksum is
  missing; the executable hashes to \<open>def456\<close>; the link of the executable cannot be
  read either; logind knows no session; the decryption pipeline cannot be started for the second
  configuration.\<close>

definition world_unreadable :: world where
  "world_unreadable = world_ok\<lparr>dbus_LockedHint := (\<lambda>t p. None)\<rparr>"

definition world_locked :: world where
  "world_locked = world_ok\<lparr>dbus_LockedHint := (\<lambda>t p. Some True)\<rparr>"

definition world_absent :: world where
  "world_absent = world_ok\<lparr>dbus_pid_of := (\<lambda>t n. None)\<rparr>"

definition world_nobase :: world where
  "world_nobase = world_ok\<lparr>fs_file := (\<lambda>t p. Cannot_open)\<rparr>"

definition world_tampered :: world where
  "world_tampered = world_ok\<lparr>EVP_sha512 := (\<lambda>bytes. [0xDE, 0xF4, 0x56])\<rparr>"

definition world_unresolved :: world where
  "world_unresolved = world_tampered\<lparr>fs_readlink := (\<lambda>t p. None)\<rparr>"

definition world_nosession :: world where
  "world_nosession = world_ok\<lparr>dbus_ListSessions := (\<lambda>t. Some [])\<rparr>"

definition world_second_fails :: world where
  "world_second_fails =
     world_ok\<lparr>sys_popen := (\<lambda>t n p c. if p = ''/c/b.conf'' then None else Some (''secret'', 0))\<rparr>"

text \<open>\<open>systemd-creds\<close> cannot decrypt the second configuration: it writes nothing to its
  output and exits with status 1 (256 as \<open>pclose\<close> reports it), and KeePassXC rejects
  the empty password.\<close>

definition world_decrypt_fails :: world where
  "world_decrypt_fails =
     world_ok\<lparr>sys_popen := (\<lambda>t n p c. if p = ''/c/b.conf'' then Some ([], 256) else Some (''secret'', 0)),
              dbus_openDatabase := (\<lambda>t d p k. p \<noteq> [])\<rparr>"

text \<open>The monitored session of user 1000 as the callbacks may find it recorded.\<close>

definition session_unlocked_active :: session_loop_data where
  "session_unlocked_active =
     \<lparr>sd_session_path = ''/session/c3'', sd_user_id = 1000,
      session_locked = False, session_active = True\<rparr>"

definition session_locked_active :: session_loop_data where
  "session_locked_active = session_unlocked_active\<lparr>session_locked := True\<rparr>"

definition session_unlocked_inactive :: session_loop_data where
  "session_unlocked_inactive = session_unlocked_active\<lparr>session_active := False\<rparr>"

definition session_locked_inactive :: session_loop_data where
  "session_locked_inactive = session_locked_active\<lparr>session_active := False\<rparr>"

section \<open>Basic facts\<close>

lemma trace_emit [simp]: "trace (emit e s) = trace s @ [e]"
  by (simp add: emit_def)

lemma euid_emit [simp]: "euid (emit e s) = euid s"
  by (simp add: emit_def)

lemma addr_emit [simp]: "DBUS_SESSION_BUS_ADDRESS (emit e s) = DBUS_SESSION_BUS_ADDRESS s"
  by (simp add: emit_def)

lemma now_emit [simp]: "now (emit e s) = Suc (now s)"
  by (simp add: now_def)

lemma now_euid_update [simp]: "now (s\<lparr>euid := u\<rparr>) = now s"
  by (simp add: now_def)

lemma now_addr_update [simp]: "now (s\<lparr>DBUS_SESSION_BUS_ADDRESS := a\<rparr>) = now s"
  by (simp add: now_def)

section \<open>The identity switcher\<close>

text \<open>
  C4: \<open>change_euid\<close> does nothing when the process already has the requested effective
  uid; it switches when \<open>seteuid\<close> succeeds; when \<open>seteuid(0)\<close> fails it prints two
  lines and ends the process with \<open>exit(1)\<close>; when \<open>seteuid\<close> to another uid fails it
  prints one line and returns with the identity unchanged. The process is ended in no
  other case than a failed switch back to uid 0.
\<close>

theorem change_euid_contract:
  "(euid s = uid \<longrightarrow> change_euid w uid s = Ret () s) \<and>
   (euid s \<noteq> uid \<and> sys_seteuid w (now s) uid \<longrightarrow>
      change_euid w uid s = Ret () ((emit (Seteuid uid) s)\<lparr>euid := uid\<rparr>)) \<and>
   (euid s \<noteq> 0 \<and> \<not> sys_seteuid w (now s) 0 \<longrightarrow>
      change_euid w 0 s =
        Exit (emit (Exit_process 1) (emit (Print Cannot_switch_back_to_root)
               (emit (Print (Failed_in_seteuid 0)) (emit (Seteuid 0) s))))) \<and>
   (uid \<noteq> 0 \<and> euid s \<noteq> uid \<and> \<not> sys_seteuid w (now s) uid \<longrightarrow>
      change_euid w uid s = Ret () (emit (Print (Failed_in_seteuid uid)) (emit (Seteuid uid) s))) \<and>
   ((\<exists>s'. change_euid w uid s = Exit s') \<longleftrightarrow>
      uid = 0 \<and> euid s \<noteq> 0 \<and> \<not> sys_seteuid w (now s) 0)"
  by (auto simp: change_euid_def Let_def)

theorem change_euid_contract_witness:
  "euid root_proc = 0 \<and> change_euid world_ok 0 root_proc = Ret () root_proc \<and>
   euid user_proc \<noteq> 0 \<and> \<not> sys_seteuid world_stuck (now user_proc) 0 \<and>
   change_euid world_stuck 0 user_proc =
     Exit \<lparr>euid = 1000, DBUS_SESSION_BUS_ADDRESS = None,
           trace = [Seteuid 0, Print (Failed_in_seteuid 0), Print Cannot_switch_back_to_root,
                    Exit_process 1]\<rparr> \<and>
   (\<exists>s'. change_euid world_stuck 0 user_proc = Exit s') \<and>
   euid root_proc \<noteq> 1000 \<and> \<not> sys_seteuid world_stuck (now root_proc) 1000 \<and>
   change_euid world_stuck 1000 root_proc =
     Ret () \<lparr>euid = 0, DBUS_SESSION_BUS_ADDRESS = None,
             trace = [Seteuid 1000, Print (Failed_in_seteuid 1000)]\<rparr> \<and>
   sys_seteuid world_ok (now root_proc) 1000 \<and>
   change_euid world_ok 1000 root_proc =
     Ret () \<lparr>euid = 1000, DBUS_SESSION_BUS_ADDRESS = None, trace = [Seteuid 1000]\<rparr>"
  using change_euid_contract [of root_proc 0 world_ok]
    change_euid_contract [of user_proc 0 world_stuck]
    change_euid_contract [of root_proc 1000 world_stuck]
    change_euid_contract [of root_proc 1000 world_ok]
  by (simp add: root_proc_def user_proc_def world_ok_def world_stuck_def now_def emit_def)


section \<open>How the trace grows\<close>

lemma is_locked_filter:
  assumes "\<not> P (Get_LockedHint session_path)" "\<And>m. \<not> P (Print m)"
  shows "filter P (trace (snd (is_locked w session_path s))) = filter P (trace s)"
  using assms by (simp add: is_locked_def Let_def split: option.splits)

lemma is_locked_euid [simp]: "euid (snd (is_locked w session_path s)) = euid s"
  by (simp add: is_locked_def Let_def split: option.splits)

lemma change_euid_filter:
  assumes "\<not> P (Seteuid uid)" "\<And>m. \<not> P (Print m)" "\<And>n. \<not> P (Exit_process n)"
  shows "filter P (trace (final (change_euid w uid s))) = filter P (trace s)"
  using assms by (auto simp: change_euid_def Let_def)

lemma change_euid_root: "change_euid w 0 s = Ret x s' \<Longrightarrow> euid s' = 0"
  by (auto simp: change_euid_def Let_def split: if_splits)

lemma change_euid_prefix: "prefix (trace s) (trace (final (change_euid w uid s)))"
  by (simp add: change_euid_def Let_def)

lemma get_pid_filter:
  assumes "\<And>u. \<not> P (Bus_get_session u)" "\<And>m. \<not> P (Print m)"
    "\<And>a. \<not> P (GetConnectionUnixProcessID a)"
  shows "filter P (trace (snd (get_dbus_service_process_id w api log_error s))) = filter P (trace s)"
  using assms by (simp add: get_dbus_service_process_id_def Let_def split: option.splits)

lemma get_pid_euid [simp]: "euid (snd (get_dbus_service_process_id w api log_error s)) = euid s"
  by (simp add: get_dbus_service_process_id_def Let_def split: option.splits)

lemma get_pid_probes:
  "filter is_probe (trace (snd (get_dbus_service_process_id w api log_error s))) =
     filter is_probe (trace s) @ [Bus_get_session (euid s)]"
  by (simp add: get_dbus_service_process_id_def Let_def split: option.splits)

lemma slept_append [simp]: "slept (xs @ ys) = slept xs + slept ys"
  by (induction xs rule: slept.induct) simp_all

lemma is_locked_prefix: "prefix (trace s) (trace (snd (is_locked w session_path s)))"
  by (simp add: is_locked_def Let_def split: option.splits)

lemma get_pid_prefix: "prefix (trace s) (trace (snd (get_dbus_service_process_id w api log_error s)))"
  by (simp add: get_dbus_service_process_id_def Let_def split: option.splits)

lemma get_pid_slept [simp]:
  "slept (trace (snd (get_dbus_service_process_id w api log_error s))) = slept (trace s)"
  by (simp add: get_dbus_service_process_id_def Let_def split: option.splits)

lemma change_euid_slept [simp]: "slept (trace (final (change_euid w uid s))) = slept (trace s)"
  by (simp add: change_euid_def Let_def)

lemma change_euid_Ret_cases:
  assumes "change_euid w uid s = Ret x s'"
  shows "euid s' = uid \<or> (uid \<noteq> 0 \<and> euid s' = euid s \<and> \<not> sys_seteuid w (now s) uid)"
  using assms by (auto simp: change_euid_def Let_def split: if_splits)

subsection \<open>One probe\<close>

lemma probe_filter:
  assumes "\<And>u. \<not> P (Seteuid u)" "\<And>m. \<not> P (Print m)" "\<And>n. \<not> P (Exit_process n)"
    "\<And>u. \<not> P (Bus_get_session u)" "\<And>a. \<not> P (GetConnectionUnixProcessID a)"
  shows "filter P (trace (final (unlock_databases_probe w user_id log_error s))) = filter P (trace s)"
proof (cases "change_euid w user_id s")
  case (Exit s1)
  then show ?thesis
    using change_euid_filter [of P user_id w s] assms
    by (simp add: unlock_databases_probe_def)
next
  case (Ret x s1)
  obtain kp_pid s2 where g: "get_dbus_service_process_id w KP_DBUS_INTERFACE log_error s1 = (kp_pid, s2)"
    by (cases "get_dbus_service_process_id w KP_DBUS_INTERFACE log_error s1")
  have 1: "filter P (trace s1) = filter P (trace s)"
    using change_euid_filter [of P user_id w s] assms Ret by simp
  have 2: "filter P (trace s2) = filter P (trace s1)"
    using get_pid_filter [of P w KP_DBUS_INTERFACE log_error s1] assms g by simp
  have 3: "filter P (trace (final (change_euid w 0 s2))) = filter P (trace s2)"
    using change_euid_filter [of P 0 w s2] assms by simp
  show ?thesis
    using Ret g 1 2 3
    by (cases "change_euid w 0 s2") (simp_all add: unlock_databases_probe_def)
qed

lemma probe_root: "unlock_databases_probe w user_id log_error s = Ret kp_pid s' \<Longrightarrow> euid s' = 0"
  by (auto simp: unlock_databases_probe_def split: outcome.splits prod.splits dest: change_euid_root)

lemma probe_probes:
  assumes "euid s = 0"
  shows "filter is_probe (trace (final (unlock_databases_probe w user_id log_error s))) =
           filter is_probe (trace s) @
             (case change_euid w user_id s of Exit s1 \<Rightarrow> [] | Ret x s1 \<Rightarrow> [Bus_get_session (euid s1)])"
proof (cases "change_euid w user_id s")
  case (Exit s1)
  then show ?thesis
    using change_euid_filter [of is_probe user_id w s]
    by (simp add: unlock_databases_probe_def)
next
  case (Ret x s1)
  obtain kp_pid s2 where g: "get_dbus_service_process_id w KP_DBUS_INTERFACE log_error s1 = (kp_pid, s2)"
    by (cases "get_dbus_service_process_id w KP_DBUS_INTERFACE log_error s1")
  have 1: "filter is_probe (trace s1) = filter is_probe (trace s)"
    using change_euid_filter [of is_probe user_id w s] Ret by simp
  have 2: "filter is_probe (trace s2) = filter is_probe (trace s1) @ [Bus_get_session (euid s1)]"
    using get_pid_probes [of w KP_DBUS_INTERFACE log_error s1] g by simp
  have 3: "filter is_probe (trace (final (change_euid w 0 s2))) = filter is_probe (trace s2)"
    using change_euid_filter [of is_probe 0 w s2] by simp
  show ?thesis
    using Ret g 1 2 3
    by (cases "change_euid w 0 s2") (simp_all add: unlock_databases_probe_def)
qed

lemma probe_slept [simp]:
  "slept (trace (final (unlock_databases_probe w user_id log_error s))) = slept (trace s)"
proof (cases "change_euid w user_id s")
  case (Exit s1)
  then show ?thesis
    using change_euid_slept [of w user_id s] by (simp add: unlock_databases_probe_def)
next
  case (Ret x s1)
  obtain kp_pid s2 where g: "get_dbus_service_process_id w KP_DBUS_INTERFACE log_error s1 = (kp_pid, s2)"
    by (cases "get_dbus_service_process_id w KP_DBUS_INTERFACE log_error s1")
  have 1: "slept (trace s1) = slept (trace s)"
    using change_euid_slept [of w user_id s] Ret by simp
  have 2: "slept (trace s2) = slept (trace s1)"
    using get_pid_slept [of w KP_DBUS_INTERFACE log_error s1] g by simp
  have 3: "slept (trace (final (change_euid w 0 s2))) = slept (trace s2)"
    by simp
  show ?thesis
    using Ret g 1 2 3
    by (cases "change_euid w 0 s2") (simp_all add: unlock_databases_probe_def)
qed

lemma probe_prefix: "prefix (trace s) (trace (final (unlock_databases_probe w user_id log_error s)))"
proof (cases "change_euid w user_id s")
  case (Exit s1)
  then show ?thesis
    using change_euid_prefix [of s w user_id] by (simp add: unlock_databases_probe_def)
next
  case (Ret x s1)
  obtain kp_pid s2 where g: "get_dbus_service_process_id w KP_DBUS_INTERFACE log_error s1 = (kp_pid, s2)"
    by (cases "get_dbus_service_process_id w KP_DBUS_INTERFACE log_error s1")
  have 1: "prefix (trace s) (trace s1)"
    using change_euid_prefix [of s w user_id] Ret by simp
  have 2: "prefix (trace s1) (trace s2)"
    using get_pid_prefix [of s1 w KP_DBUS_INTERFACE log_error] g by simp
  have 3: "prefix (trace s2) (trace (final (change_euid w 0 s2)))"
    by (rule change_euid_prefix)
  have "prefix (trace s) (trace (final (change_euid w 0 s2)))"
    using 1 2 3 by (meson prefix_order.trans)
  then show ?thesis
    using Ret g
    by (cases "change_euid w 0 s2") (simp_all add: unlock_databases_probe_def)
qed

subsection \<open>The polling loop\<close>

declare unlock_databases_poll.simps [simp del]

lemma poll_filter:
  assumes "\<And>u. \<not> P (Seteuid u)" "\<And>m. \<not> P (Print m)" "\<And>n. \<not> P (Exit_process n)"
    "\<And>u. \<not> P (Bus_get_session u)" "\<And>a. \<not> P (GetConnectionUnixProcessID a)"
    "\<And>n. \<not> P (Sleep n)"
  shows "filter P (trace (final (unlock_databases_poll w user_id wait_secs i s))) = filter P (trace s)"
proof (induction w user_id wait_secs i s rule: unlock_databases_poll.induct)
  case (1 w user_id wait_secs i s)
  have pr: "filter P (trace (final (unlock_databases_probe w user_id (i = wait_secs - 1) s))) =
      filter P (trace s)"
    using assms by (intro probe_filter) auto
  show ?case
  proof (cases "i < wait_secs")
    case False
    then show ?thesis by (subst unlock_databases_poll.simps) simp
  next
    case True
    show ?thesis
    proof (cases "unlock_databases_probe w user_id (i = wait_secs - 1) s")
      case (Exit s3)
      then show ?thesis
        using True pr by (subst unlock_databases_poll.simps) simp
    next
      case (Ret kp_pid s3)
      show ?thesis
      proof (cases "kp_pid = 0")
        case False
        then show ?thesis
          using True Ret pr by (subst unlock_databases_poll.simps) simp
      next
        case z: True
        have "filter P (trace (final (unlock_databases_poll w user_id wait_secs (i + 1) (emit (Sleep 1) s3)))) =
            filter P (trace (emit (Sleep 1) s3))"
          using "1.IH" [OF True Ret] z by simp
        then show ?thesis
          using True Ret pr z assms(6) by (subst unlock_databases_poll.simps) simp
      qed
    qed
  qed
qed

lemma poll_root:
  "euid s = 0 \<Longrightarrow> unlock_databases_poll w user_id wait_secs i s = Ret kp_pid s' \<Longrightarrow> euid s' = 0"
proof (induction w user_id wait_secs i s rule: unlock_databases_poll.induct)
  case (1 w user_id wait_secs i s)
  show ?case
  proof (cases "i < wait_secs")
    case False
    then show ?thesis
      using "1.prems" by (subst (asm) unlock_databases_poll.simps) simp
  next
    case True
    show ?thesis
    proof (cases "unlock_databases_probe w user_id (i = wait_secs - 1) s")
      case (Exit s3)
      then show ?thesis
        using True "1.prems" by (subst (asm) unlock_databases_poll.simps) simp
    next
      case (Ret pid s3)
      have e3: "euid s3 = 0" using Ret by (rule probe_root)
      show ?thesis
      proof (cases "pid = 0")
        case False
        then show ?thesis
          using True Ret "1.prems"(2) e3 by (subst (asm) unlock_databases_poll.simps) simp
      next
        case z: True
        have "unlock_databases_poll w user_id wait_secs (i + 1) (emit (Sleep 1) s3) = Ret kp_pid s'"
          using True Ret z "1.prems"(2) by (subst (asm) unlock_databases_poll.simps) simp
        then show ?thesis
          using "1.IH" [OF True Ret] z e3 by simp
      qed
    qed
  qed
qed

lemma poll_probes:
  assumes "euid s = 0"
  shows "\<exists>ps. filter is_probe (trace (final (unlock_databases_poll w user_id wait_secs i s))) =
              filter is_probe (trace s) @ ps \<and>
            length ps \<le> nat (wait_secs - i) \<and>
            set ps \<subseteq> {Bus_get_session user_id, Bus_get_session 0} \<and>
            ((\<forall>t. sys_seteuid w t user_id) \<longrightarrow> set ps \<subseteq> {Bus_get_session user_id}) \<and>
            length ps + slept (trace s) \<le> slept (trace (final (unlock_databases_poll w user_id wait_secs i s))) + 1 \<and>
            slept (trace (final (unlock_databases_poll w user_id wait_secs i s))) \<le> slept (trace s) + nat (wait_secs - i)"
  using assms
proof (induction w user_id wait_secs i s rule: unlock_databases_poll.induct)
  case (1 w user_id wait_secs i s)
  let ?probe = "unlock_databases_probe w user_id (i = wait_secs - 1) s"
  define p1 where "p1 = (case change_euid w user_id s of Exit s1 \<Rightarrow> [] | Ret x s1 \<Rightarrow> [Bus_get_session (euid s1)])"
  have pr: "filter is_probe (trace (final ?probe)) = filter is_probe (trace s) @ p1"
    unfolding p1_def using "1.prems" by (rule probe_probes)
  have p1_cases: "p1 = [] \<or> p1 = [Bus_get_session user_id] \<or>
      (p1 = [Bus_get_session 0] \<and> \<not> sys_seteuid w (now s) user_id)"
  proof (cases "change_euid w user_id s")
    case (Exit s1)
    then show ?thesis by (simp add: p1_def)
  next
    case (Ret x s1)
    from change_euid_Ret_cases [OF Ret] "1.prems" show ?thesis
      by (auto simp: p1_def Ret)
  qed
  have p1_len: "length p1 \<le> 1"
    using p1_cases by auto
  have p1_set: "set p1 \<subseteq> {Bus_get_session user_id, Bus_get_session 0}"
    using p1_cases by auto
  have p1_ok: "(\<forall>t. sys_seteuid w t user_id) \<longrightarrow> set p1 \<subseteq> {Bus_get_session user_id}"
    using p1_cases by auto
  have sl: "slept (trace (final ?probe)) = slept (trace s)"
    by simp
  show ?case
  proof (cases "i < wait_secs")
    case False
    then show ?thesis by (subst (1 2 3) unlock_databases_poll.simps) simp
  next
    case True
    show ?thesis
    proof (cases ?probe)
      case (Exit s3)
      have "unlock_databases_poll w user_id wait_secs i s = Exit s3"
        using True Exit by (subst unlock_databases_poll.simps) simp
      then show ?thesis
        using pr sl Exit p1_len p1_set p1_ok True by (intro exI [of _ p1]) auto
    next
      case (Ret pid s3)
      have e3: "euid s3 = 0" using Ret by (rule probe_root)
      show ?thesis
      proof (cases "pid = 0")
        case False
        have "unlock_databases_poll w user_id wait_secs i s = Ret pid s3"
          using True Ret False by (subst unlock_databases_poll.simps) simp
        then show ?thesis
          using pr sl Ret p1_len p1_set p1_ok True by (intro exI [of _ p1]) auto
      next
        case z: True
        let ?s4 = "emit (Sleep 1) s3"
        let ?rest = "unlock_databases_poll w user_id wait_secs (i + 1) ?s4"
        have eq: "unlock_databases_poll w user_id wait_secs i s = ?rest"
          using True Ret z by (subst unlock_databases_poll.simps) simp
        have "euid ?s4 = 0" using e3 by simp
        from "1.IH" [OF True Ret _ this] z
        obtain ps where ps: "filter is_probe (trace (final ?rest)) = filter is_probe (trace ?s4) @ ps"
          "length ps \<le> nat (wait_secs - (i + 1))"
          "set ps \<subseteq> {Bus_get_session user_id, Bus_get_session 0}"
          "(\<forall>t. sys_seteuid w t user_id) \<longrightarrow> set ps \<subseteq> {Bus_get_session user_id}"
          "length ps + slept (trace ?s4) \<le> slept (trace (final ?rest)) + 1"
          "slept (trace (final ?rest)) \<le> slept (trace ?s4) + nat (wait_secs - (i + 1))"
          by auto
        have s4: "filter is_probe (trace ?s4) = filter is_probe (trace s) @ p1"
          "slept (trace ?s4) = slept (trace s) + 1"
          using pr sl Ret by simp_all
        show ?thesis
          unfolding eq
          using ps s4 p1_len p1_set p1_ok True
          by (intro exI [of _ "p1 @ ps"]) auto
      qed
    qed
  qed
qed

lemma poll_prefix: "prefix (trace s) (trace (final (unlock_databases_poll w user_id wait_secs i s)))"
proof (induction w user_id wait_secs i s rule: unlock_databases_poll.induct)
  case (1 w user_id wait_secs i s)
  have pr: "prefix (trace s) (trace (final (unlock_databases_probe w user_id (i = wait_secs - 1) s)))"
    by (rule probe_prefix)
  show ?case
  proof (cases "i < wait_secs")
    case False
    then show ?thesis by (subst unlock_databases_poll.simps) simp
  next
    case True
    show ?thesis
    proof (cases "unlock_databases_probe w user_id (i = wait_secs - 1) s")
      case (Exit s3)
      then show ?thesis
        using True pr by (subst unlock_databases_poll.simps) simp
    next
      case (Ret kp_pid s3)
      show ?thesis
      proof (cases "kp_pid = 0")
        case False
        then show ?thesis
          using True Ret pr by (subst unlock_databases_poll.simps) simp
      next
        case z: True
        have "prefix (trace (emit (Sleep 1) s3))
            (trace (final (unlock_databases_poll w user_id wait_secs (i + 1) (emit (Sleep 1) s3))))"
          using "1.IH" [OF True Ret] z by simp
        then have "prefix (trace s3)
            (trace (final (unlock_databases_poll w user_id wait_secs (i + 1) (emit (Sleep 1) s3))))"
          by (simp add: append_prefixD)
        then have "prefix (trace s)
            (trace (final (unlock_databases_poll w user_id wait_secs (i + 1) (emit (Sleep 1) s3))))"
          using pr Ret by (auto intro: prefix_order.trans)
        then show ?thesis
          using True Ret z by (subst unlock_databases_poll.simps) simp
      qed
    qed
  qed
qed


subsection \<open>The checksum block\<close>

lemma sha512sum_filter:
  assumes "\<And>p. \<not> P (Open_read p)" "\<And>m. \<not> P (Print m)"
  shows "filter P (trace (snd (sha512sum w path n s))) = filter P (trace s)"
  using assms by (simp add: sha512sum_def Let_def split: fcontent.splits)

lemma sha512sum_euid [simp]: "euid (snd (sha512sum w path n s)) = euid s"
  by (simp add: sha512sum_def Let_def split: fcontent.splits)

lemma sha512sum_prefix: "prefix (trace s) (trace (snd (sha512sum w path n s)))"
  by (simp add: sha512sum_def Let_def split: fcontent.splits)

text \<open>The three ways through the block, with the names of the source.\<close>

lemma verify_missing:
  assumes "fs_file w (now s) (snprintf 128 (dir @ ''/keepassxc.sha512'')) = Cannot_open"
  shows "unlock_databases_verify w user_id dir kp_pid s =
    (Mismatch, emit (Print (Skipping_unlock_missing (snprintf 128 (dir @ ''/keepassxc.sha512''))))
       (emit (Fopen (snprintf 128 (dir @ ''/keepassxc.sha512''))) s))"
  using assms by (simp add: unlock_databases_verify_def Let_def)

lemma verify_opened:
  fixes w user_id dir kp_pid s
  defines "kp_sha512_file \<equiv> snprintf 128 (dir @ ''/keepassxc.sha512'')"
    and "kp_exe \<equiv> snprintf 128 (''/proc/'' @ printf_d kp_pid @ ''/exe'')"
  defines "s1 \<equiv> emit (Fopen kp_sha512_file) s"
  defines "current_sha512 \<equiv> fst (sha512sum w kp_exe SHA512_BUFFER_SIZE s1)"
    and "s2 \<equiv> snd (sha512sum w kp_exe SHA512_BUFFER_SIZE s1)"
  defines "mismatch \<equiv>
     (case current_sha512 of
        None \<Rightarrow> True
      | Some current \<Rightarrow>
          length current = 0 \<or>
          (case file_fgets SHA512_BUFFER_SIZE (fs_file w (now s) kp_sha512_file) of
             None \<Rightarrow> True
           | Some (expected_sha512, rest) \<Rightarrow> current \<noteq> chop_newline expected_sha512))"
  defines "kp_exe_real \<equiv>
     (case fs_readlink w (now s2) kp_exe of
        None \<Rightarrow> kp_exe
      | Some target \<Rightarrow>
          if length (take (PATH_MAX - 1) target) > 0
          then cstr (take (PATH_MAX - 1) target) else kp_exe)"
  defines "s5 \<equiv> emit (System_notify_send user_id kp_pid kp_exe_real)
     (emit (Print (Aborting_unlock_checksum_mismatch kp_pid kp_exe_real)) (emit (Readlink kp_exe) s2))"
  assumes "fs_file w (now s) kp_sha512_file \<noteq> Cannot_open"
  shows "unlock_databases_verify w user_id dir kp_pid s =
    (if mismatch
     then (Mismatch, if sys_system w (Suc (Suc (now s2))) then s5 else emit (Print Failed_to_notify_send) s5)
     else (Match, s2))"
proof -
  obtain c t where sh: "sha512sum w kp_exe SHA512_BUFFER_SIZE s1 = (c, t)"
    by (cases "sha512sum w kp_exe SHA512_BUFFER_SIZE s1")
  then have ct: "current_sha512 = c" "s2 = t"
    by (simp_all add: current_sha512_def s2_def)
  show ?thesis
  proof (cases "fs_file w (now s) kp_sha512_file")
    case Cannot_open
    then show ?thesis using assms(9) by simp
  next
    case Read_error
    then show ?thesis
      using sh ct
      unfolding unlock_databases_verify_def mismatch_def s5_def kp_exe_real_def
      unfolding kp_sha512_file_def [symmetric] Let_def
      unfolding s1_def [symmetric] kp_exe_def [symmetric]
      by (simp split: option.splits)
  next
    case (Contents cs)
    then show ?thesis
      using sh ct
      unfolding unlock_databases_verify_def mismatch_def s5_def kp_exe_real_def
      unfolding kp_sha512_file_def [symmetric] Let_def
      unfolding s1_def [symmetric] kp_exe_def [symmetric]
      by (simp split: option.splits)
  qed
qed

lemma verify_filter:
  assumes "\<And>p. \<not> P (Fopen p)" "\<And>p. \<not> P (Open_read p)" "\<And>m. \<not> P (Print m)"
    "\<And>p. \<not> P (Readlink p)" "\<And>u p e. \<not> P (System_notify_send u p e)"
  shows "filter P (trace (snd (unlock_databases_verify w user_id dir kp_pid s))) = filter P (trace s)"
proof (cases "fs_file w (now s) (snprintf 128 (dir @ ''/keepassxc.sha512'')) = Cannot_open")
  case True
  then show ?thesis using assms by (simp add: verify_missing)
next
  case False
  have "filter P (trace (snd (sha512sum w (snprintf 128 (''/proc/'' @ printf_d kp_pid @ ''/exe''))
      SHA512_BUFFER_SIZE (emit (Fopen (snprintf 128 (dir @ ''/keepassxc.sha512''))) s)))) =
    filter P (trace (emit (Fopen (snprintf 128 (dir @ ''/keepassxc.sha512''))) s))"
    using assms by (intro sha512sum_filter) auto
  then show ?thesis
    using assms by (simp add: verify_opened [OF False])
qed

lemma verify_euid [simp]: "euid (snd (unlock_databases_verify w user_id dir kp_pid s)) = euid s"
proof (cases "fs_file w (now s) (snprintf 128 (dir @ ''/keepassxc.sha512'')) = Cannot_open")
  case True
  then show ?thesis by (simp add: verify_missing)
next
  case False
  show ?thesis by (simp add: verify_opened [OF False])
qed

lemma verify_prefix: "prefix (trace s) (trace (snd (unlock_databases_verify w user_id dir kp_pid s)))"
proof (cases "fs_file w (now s) (snprintf 128 (dir @ ''/keepassxc.sha512'')) = Cannot_open")
  case True
  then show ?thesis by (simp add: verify_missing)
next
  case False
  have "prefix (trace (emit (Fopen (snprintf 128 (dir @ ''/keepassxc.sha512''))) s))
     (trace (snd (sha512sum w (snprintf 128 (''/proc/'' @ printf_d kp_pid @ ''/exe''))
      SHA512_BUFFER_SIZE (emit (Fopen (snprintf 128 (dir @ ''/keepassxc.sha512''))) s))))"
    by (rule sha512sum_prefix)
  then have "prefix (trace s)
     (trace (snd (sha512sum w (snprintf 128 (''/proc/'' @ printf_d kp_pid @ ''/exe''))
      SHA512_BUFFER_SIZE (emit (Fopen (snprintf 128 (dir @ ''/keepassxc.sha512''))) s))))"
    by (simp add: append_prefixD)
  then show ?thesis
    by (simp add: verify_opened [OF False])
qed


declare read_conf.simps [simp del] show_nat.simps [simp del] main_select_session.simps [simp del]

subsection \<open>One configuration\<close>

lemma decrypt_filter:
  assumes "\<And>p. \<not> P (Fopen p)" "\<And>n p c. \<not> P (Popen_decrypt n p c)" "\<And>m. \<not> P (Print m)"
  shows "filter P (trace (snd (unlock_databases_decrypt w conf_path s))) = filter P (trace s)"
  using assms
  by (simp add: unlock_databases_decrypt_def Let_def split: fcontent.splits prod.splits option.splits)

lemma decrypt_fopen:
  "filter is_fopen (trace (snd (unlock_databases_decrypt w conf_path s))) =
     filter is_fopen (trace s) @ [Fopen conf_path]"
  by (simp add: unlock_databases_decrypt_def Let_def split: fcontent.splits prod.splits option.splits)

lemma decrypt_euid [simp]: "euid (snd (unlock_databases_decrypt w conf_path s)) = euid s"
  by (simp add: unlock_databases_decrypt_def Let_def split: fcontent.splits prod.splits option.splits)

lemma decrypt_prefix: "prefix (trace s) (trace (snd (unlock_databases_decrypt w conf_path s)))"
  by (simp add: unlock_databases_decrypt_def Let_def split: fcontent.splits prod.splits option.splits)

lemma open_filter:
  assumes "\<And>u. \<not> P (Seteuid u)" "\<And>m. \<not> P (Print m)" "\<And>n. \<not> P (Exit_process n)"
    "\<And>u. \<not> P (Bus_get_session u)" "\<And>d p k. \<not> P (OpenDatabase d p k)"
  shows "filter P (trace (final (unlock_databases_open w user_id kdbx passwd key s))) = filter P (trace s)"
proof (cases "change_euid w user_id s")
  case (Exit s3)
  then show ?thesis
    using change_euid_filter [of P user_id w s] assms by (simp add: unlock_databases_open_def)
next
  case (Ret x s3)
  have 1: "filter P (trace s3) = filter P (trace s)"
    using change_euid_filter [of P user_id w s] assms Ret by simp
  have 2: "filter P (trace (final (change_euid w 0 t))) = filter P (trace t)" for t
    using assms by (intro change_euid_filter) auto
  show ?thesis
    using Ret 1 2 assms by (simp add: unlock_databases_open_def Let_def)
qed

lemma open_root: "unlock_databases_open w user_id kdbx passwd key s = Ret x s' \<Longrightarrow> euid s' = 0"
  by (auto simp: unlock_databases_open_def Let_def split: outcome.splits if_splits
      dest: change_euid_root)

lemma change_euid_returns:
  "uid \<noteq> 0 \<or> sys_seteuid w (now s) 0 \<Longrightarrow> \<exists>s'. change_euid w uid s = Ret () s'"
  by (auto simp: change_euid_def Let_def)

lemma open_returns:
  assumes "\<forall>t. sys_seteuid w t 0"
  shows "\<exists>s'. unlock_databases_open w user_id kdbx passwd key s = Ret () s'"
proof -
  obtain s3 where 1: "change_euid w user_id s = Ret () s3"
    using change_euid_returns [of user_id w s] assms by auto
  have 2: "\<exists>s'. change_euid w 0 t = Ret () s'" for t
    using change_euid_returns [of 0 w t] assms by auto
  show ?thesis
    using 1 2 by (simp add: unlock_databases_open_def Let_def)
qed

lemma open_prefix: "prefix (trace s) (trace (final (unlock_databases_open w user_id kdbx passwd key s)))"
proof (cases "change_euid w user_id s")
  case (Exit s3)
  then show ?thesis
    using change_euid_prefix [of s w user_id] by (simp add: unlock_databases_open_def)
next
  case (Ret x s3)
  have 1: "prefix (trace s) (trace s3)"
    using change_euid_prefix [of s w user_id] Ret by simp
  have 2: "prefix (trace s3) (trace (final (change_euid w 0 t)))" if "prefix (trace s3) (trace t)" for t
    using that change_euid_prefix [of t w 0] by (auto intro: prefix_order.trans)
  have "prefix (trace s3) (trace (final (unlock_databases_open w user_id kdbx passwd key s)))"
    using Ret by (auto simp: unlock_databases_open_def Let_def intro!: 2)
  then show ?thesis
    using 1 by (auto intro: prefix_order.trans)
qed

lemma record_filter:
  assumes "\<And>p. \<not> P (Fopen p)" "\<And>n p c. \<not> P (Popen_decrypt n p c)"
    "\<And>u. \<not> P (Seteuid u)" "\<And>m. \<not> P (Print m)" "\<And>n. \<not> P (Exit_process n)"
    "\<And>u. \<not> P (Bus_get_session u)" "\<And>d p k. \<not> P (OpenDatabase d p k)"
  shows "filter P (trace (final (unlock_databases_record w user_id conf_path s))) = filter P (trace s)"
proof -
  have 1: "filter P (trace (snd (unlock_databases_decrypt w conf_path s))) = filter P (trace s)"
    using assms by (intro decrypt_filter) auto
  have 2: "filter P (trace (final (unlock_databases_open w user_id kdbx passwd key t))) = filter P (trace t)"
    for kdbx passwd key t
    using assms by (intro open_filter) auto
  show ?thesis
    using 1 2
    by (cases "unlock_databases_decrypt w conf_path s")
       (auto simp: unlock_databases_record_def split: option.splits)
qed

lemma record_fopen:
  "filter is_fopen (trace (final (unlock_databases_record w user_id conf_path s))) =
     filter is_fopen (trace s) @ [Fopen conf_path]"
proof -
  have 1: "filter is_fopen (trace (snd (unlock_databases_decrypt w conf_path s))) =
      filter is_fopen (trace s) @ [Fopen conf_path]"
    by (rule decrypt_fopen)
  have 2: "filter is_fopen (trace (final (unlock_databases_open w user_id kdbx passwd key t))) =
      filter is_fopen (trace t)" for kdbx passwd key t
    by (intro open_filter) auto
  show ?thesis
    using 1 2
    by (cases "unlock_databases_decrypt w conf_path s")
       (auto simp: unlock_databases_record_def split: option.splits)
qed

lemma record_root:
  assumes "euid s = 0" "unlock_databases_record w user_id conf_path s = Ret x s'"
  shows "euid s' = 0"
proof (cases "unlock_databases_decrypt w conf_path s")
  case (Pair r s2)
  have "euid s2 = 0"
    using decrypt_euid [of w conf_path s] Pair assms(1) by simp
  then show ?thesis
    using assms(2) Pair
    by (auto simp: unlock_databases_record_def split: option.splits dest: open_root)
qed

lemma record_returns:
  assumes "\<forall>t. sys_seteuid w t 0"
  shows "\<exists>s'. unlock_databases_record w user_id conf_path s = Ret () s'"
  using open_returns [OF assms]
  by (cases "unlock_databases_decrypt w conf_path s")
     (auto simp: unlock_databases_record_def split: option.splits)

lemma record_prefix: "prefix (trace s) (trace (final (unlock_databases_record w user_id conf_path s)))"
proof (cases "unlock_databases_decrypt w conf_path s")
  case (Pair r s2)
  have 1: "prefix (trace s) (trace s2)"
    using decrypt_prefix [of s w conf_path] Pair by simp
  have 2: "prefix (trace s2) (trace (final (unlock_databases_open w user_id kdbx passwd key s2)))"
    for kdbx passwd key
    by (rule open_prefix)
  show ?thesis
    using 1 2 Pair
    by (auto simp: unlock_databases_record_def split: option.splits intro: prefix_order.trans)
qed

subsection \<open>The loop over the configurations\<close>

lemma records_filter:
  assumes "\<And>p. \<not> P (Fopen p)" "\<And>n p c. \<not> P (Popen_decrypt n p c)"
    "\<And>u. \<not> P (Seteuid u)" "\<And>m. \<not> P (Print m)" "\<And>n. \<not> P (Exit_process n)"
    "\<And>u. \<not> P (Bus_get_session u)" "\<And>d p k. \<not> P (OpenDatabase d p k)"
  shows "filter P (trace (final (unlock_databases_records w user_id ps s))) = filter P (trace s)"
proof (induction ps arbitrary: s)
  case Nil
  show ?case by simp
next
  case (Cons conf_path rest)
  have 1: "filter P (trace (final (unlock_databases_record w user_id conf_path s))) = filter P (trace s)"
    using assms by (intro record_filter) auto
  show ?case
    using 1 Cons.IH
    by (cases "unlock_databases_record w user_id conf_path s") simp_all
qed

lemma records_root:
  "euid s = 0 \<Longrightarrow> unlock_databases_records w user_id ps s = Ret x s' \<Longrightarrow> euid s' = 0"
proof (induction ps arbitrary: s)
  case Nil
  then show ?case by simp
next
  case (Cons conf_path rest)
  then show ?case
    by (cases "unlock_databases_record w user_id conf_path s") (auto dest: record_root)
qed

lemma records_prefix: "prefix (trace s) (trace (final (unlock_databases_records w user_id ps s)))"
proof (induction ps arbitrary: s)
  case Nil
  show ?case by simp
next
  case (Cons conf_path rest)
  show ?case
    using record_prefix [of s w user_id conf_path] Cons.IH
    by (cases "unlock_databases_record w user_id conf_path s")
       (auto intro: prefix_order.trans)
qed

lemma records_fopen:
  "unlock_databases_records w user_id ps s = Ret x s' \<Longrightarrow>
     filter is_fopen (trace s') = filter is_fopen (trace s) @ map Fopen ps"
proof (induction ps arbitrary: s)
  case Nil
  then show ?case by simp
next
  case (Cons conf_path rest)
  show ?case
  proof (cases "unlock_databases_record w user_id conf_path s")
    case (Exit s1)
    then show ?thesis using Cons.prems by simp
  next
    case (Ret y s1)
    have "filter is_fopen (trace s1) = filter is_fopen (trace s) @ [Fopen conf_path]"
      using record_fopen [of w user_id conf_path s] Ret by simp
    moreover have "filter is_fopen (trace s') = filter is_fopen (trace s1) @ map Fopen rest"
      using Cons.IH [of s1] Cons.prems Ret by simp
    ultimately show ?thesis by simp
  qed
qed

lemma records_returns:
  assumes "\<forall>t. sys_seteuid w t 0"
  shows "\<exists>s'. unlock_databases_records w user_id ps s = Ret () s'"
proof (induction ps arbitrary: s)
  case Nil
  show ?case by simp
next
  case (Cons conf_path rest)
  obtain s1 where "unlock_databases_record w user_id conf_path s = Ret () s1"
    using record_returns [OF assms] by blast
  then show ?case using Cons.IH [of s1] by simp
qed


subsection \<open>unlock\_databases as a whole\<close>

lemma unlock_databases_locked:
  assumes "fst (is_locked w session_path (emit (Call_unlock_databases user_id session_path wait_secs) s0))"
  shows "unlock_databases w user_id session_path wait_secs s0 =
    Ret () (emit (Print Skipping_unlock_still_locked)
      (snd (is_locked w session_path (emit (Call_unlock_databases user_id session_path wait_secs) s0))))"
  using assms
  by (cases "is_locked w session_path (emit (Call_unlock_databases user_id session_path wait_secs) s0)")
     (simp add: unlock_databases_def)

lemma unlock_databases_unlocked:
  fixes w user_id session_path wait_secs s0
  defines "s1 \<equiv> snd (is_locked w session_path (emit (Call_unlock_databases user_id session_path wait_secs) s0))"
  defines "s2 \<equiv> s1\<lparr>DBUS_SESSION_BUS_ADDRESS :=
      Some (snprintf 128 (''unix:path=/run/user/'' @ printf_d user_id @ ''/bus''))\<rparr>"
  defines "user_conf_dir \<equiv> snprintf 100 (KP_CONFIG_DIR w @ ''/'' @ printf_d user_id)"
  assumes "\<not> fst (is_locked w session_path (emit (Call_unlock_databases user_id session_path wait_secs) s0))"
  shows "unlock_databases w user_id session_path wait_secs s0 =
    (case unlock_databases_poll w user_id wait_secs 0 s2 of
       Exit s3 \<Rightarrow> Exit s3
     | Ret kp_pid s3 \<Rightarrow>
         if kp_pid = 0
         then Ret () (emit (Print (Failed_to_connect_to_KeePassXC wait_secs)) s3)
         else
           (case unlock_databases_verify w user_id user_conf_dir kp_pid s3 of
              (Mismatch, s4) \<Rightarrow> Ret () s4
            | (Match, s4) \<Rightarrow>
                (case fs_glob w (now s4) (snprintf 128 (user_conf_dir @ ''/*.conf'')) of
                   None \<Rightarrow> Ret () (emit (Glob (snprintf 128 (user_conf_dir @ ''/*.conf''))) s4)
                 | Some gl_pathv \<Rightarrow>
                     unlock_databases_records w user_id gl_pathv
                       (emit (Glob (snprintf 128 (user_conf_dir @ ''/*.conf''))) s4))))"
  using assms(4) unfolding s1_def s2_def user_conf_dir_def
  by (cases "is_locked w session_path (emit (Call_unlock_databases user_id session_path wait_secs) s0)")
     (simp add: unlock_databases_def Let_def
        split: outcome.splits prod.splits verdict.splits option.splits)

text \<open>Events that only \<open>unlock_databases\<close> itself, and none of its stages, produces.\<close>

lemma unlock_databases_filter:
  assumes "\<And>p. \<not> P (Get_LockedHint p)" "\<And>m. \<not> P (Print m)" "\<And>u. \<not> P (Seteuid u)"
    "\<And>n. \<not> P (Exit_process n)" "\<And>u. \<not> P (Bus_get_session u)"
    "\<And>a. \<not> P (GetConnectionUnixProcessID a)" "\<And>n. \<not> P (Sleep n)"
    "\<And>p. \<not> P (Fopen p)" "\<And>p. \<not> P (Open_read p)" "\<And>p. \<not> P (Readlink p)"
    "\<And>u p e. \<not> P (System_notify_send u p e)" "\<And>p. \<not> P (Glob p)"
    "\<And>n p c. \<not> P (Popen_decrypt n p c)" "\<And>d p k. \<not> P (OpenDatabase d p k)"
  shows "filter P (trace (final (unlock_databases w user_id session_path wait_secs s0))) =
    filter P (trace (emit (Call_unlock_databases user_id session_path wait_secs) s0))"
proof -
  let ?s = "emit (Call_unlock_databases user_id session_path wait_secs) s0"
  let ?s1 = "snd (is_locked w session_path ?s)"
  have 1: "filter P (trace ?s1) = filter P (trace ?s)"
    using assms by (intro is_locked_filter) auto
  show ?thesis
  proof (cases "fst (is_locked w session_path ?s)")
    case True
    then show ?thesis
      using 1 assms(2) by (simp add: unlock_databases_locked)
  next
    case False
    let ?s2 = "?s1\<lparr>DBUS_SESSION_BUS_ADDRESS :=
      Some (snprintf 128 (''unix:path=/run/user/'' @ printf_d user_id @ ''/bus''))\<rparr>"
    let ?dir = "snprintf 100 (KP_CONFIG_DIR w @ ''/'' @ printf_d user_id)"
    have 2: "filter P (trace (final (unlock_databases_poll w user_id wait_secs 0 ?s2))) = filter P (trace ?s)"
      using poll_filter [of P w user_id wait_secs 0 ?s2] assms 1 by simp
    have 3: "filter P (trace (snd (unlock_databases_verify w user_id ?dir kp_pid t))) = filter P (trace t)"
      for kp_pid t
      using assms by (intro verify_filter) auto
    have 4: "filter P (trace (final (unlock_databases_records w user_id ps t))) = filter P (trace t)"
      for ps t
      using assms by (intro records_filter) auto
    show ?thesis
    proof (cases "unlock_databases_poll w user_id wait_secs 0 ?s2")
      case (Exit s3)
      then show ?thesis
        using 2 by (simp add: unlock_databases_unlocked [OF False])
    next
      case (Ret kp_pid s3)
      have 5: "filter P (trace s3) = filter P (trace ?s)"
        using 2 Ret by simp
      show ?thesis
      proof (cases "unlock_databases_verify w user_id ?dir kp_pid s3")
        case (Pair v s4)
        have 6: "filter P (trace s4) = filter P (trace ?s)"
          using 3 [of kp_pid s3] Pair 5 by simp
        show ?thesis
          using Ret Pair 5 6 4 assms(2) assms(12)
          by (cases v) (simp_all add: unlock_databases_unlocked [OF False] split: option.splits)
      qed
    qed
  qed
qed

lemma unlock_databases_root:
  assumes "euid s0 = 0" "unlock_databases w user_id session_path wait_secs s0 = Ret x s'"
  shows "euid s' = 0"
proof -
  let ?s = "emit (Call_unlock_databases user_id session_path wait_secs) s0"
  let ?s1 = "snd (is_locked w session_path ?s)"
  have 1: "euid ?s1 = 0" using assms(1) by simp
  show ?thesis
  proof (cases "fst (is_locked w session_path ?s)")
    case True
    then show ?thesis
      using 1 assms(2) by (auto simp: unlock_databases_locked)
  next
    case False
    let ?s2 = "?s1\<lparr>DBUS_SESSION_BUS_ADDRESS :=
      Some (snprintf 128 (''unix:path=/run/user/'' @ printf_d user_id @ ''/bus''))\<rparr>"
    let ?dir = "snprintf 100 (KP_CONFIG_DIR w @ ''/'' @ printf_d user_id)"
    have 2: "euid ?s2 = 0" using 1 by simp
    show ?thesis
    proof (cases "unlock_databases_poll w user_id wait_secs 0 ?s2")
      case (Exit s3)
      then show ?thesis
        using assms(2) by (simp add: unlock_databases_unlocked [OF False])
    next
      case (Ret kp_pid s3)
      have 3: "euid s3 = 0"
        using poll_root [OF 2 Ret] .
      show ?thesis
      proof (cases "unlock_databases_verify w user_id ?dir kp_pid s3")
        case (Pair v s4)
        have 4: "euid s4 = 0"
          using verify_euid [of w user_id ?dir kp_pid s3] unfolding Pair by (simp add: 3)
        have 5: "euid (emit (Glob (snprintf 128 (?dir @ ''/*.conf''))) s4) = 0"
          using 4 by simp
        show ?thesis
          using Ret Pair 3 4 assms(2) records_root [OF 5]
          by (cases v)
             (auto simp: unlock_databases_unlocked [OF False] split: option.splits if_splits)
      qed
    qed
  qed
qed

lemma unlock_databases_prefix:
  "prefix (trace s0 @ [Call_unlock_databases user_id session_path wait_secs, Get_LockedHint session_path])
     (trace (final (unlock_databases w user_id session_path wait_secs s0)))"
proof -
  let ?s = "emit (Call_unlock_databases user_id session_path wait_secs) s0"
  let ?s1 = "snd (is_locked w session_path ?s)"
  let ?pre = "trace s0 @ [Call_unlock_databases user_id session_path wait_secs, Get_LockedHint session_path]"
  have 1: "prefix ?pre (trace ?s1)"
    by (simp add: is_locked_def Let_def split: option.splits)
  show ?thesis
  proof (cases "fst (is_locked w session_path ?s)")
    case True
    have "prefix (trace ?s1) (trace (emit (Print Skipping_unlock_still_locked) ?s1))"
      by simp
    then show ?thesis
      using 1 unfolding unlock_databases_locked [OF True] final.simps
      by (rule prefix_order.trans [rotated])
  next
    case False
    let ?s2 = "?s1\<lparr>DBUS_SESSION_BUS_ADDRESS :=
      Some (snprintf 128 (''unix:path=/run/user/'' @ printf_d user_id @ ''/bus''))\<rparr>"
    let ?dir = "snprintf 100 (KP_CONFIG_DIR w @ ''/'' @ printf_d user_id)"
    have 2: "prefix ?pre (trace (final (unlock_databases_poll w user_id wait_secs 0 ?s2)))"
      using poll_prefix [of ?s2 w user_id wait_secs 0] 1
      by (auto intro: prefix_order.trans)
    show ?thesis
    proof (cases "unlock_databases_poll w user_id wait_secs 0 ?s2")
      case (Exit s3)
      then show ?thesis
        using 2 by (simp add: unlock_databases_unlocked [OF False])
    next
      case (Ret kp_pid s3)
      have 3: "prefix ?pre (trace s3)"
        using 2 Ret by simp
      have pre3: "prefix ?pre (trace (emit e s3))" for e
        using 3 by (simp add: prefix_prefix)
      show ?thesis
      proof (cases "unlock_databases_verify w user_id ?dir kp_pid s3")
        case (Pair v s4)
        have 4: "prefix ?pre (trace s4)"
          using verify_prefix [of s3 w user_id ?dir kp_pid] Pair 3
          by (auto intro: prefix_order.trans)
        have 5: "prefix ?pre (trace (emit e s4))" for e
          using 4 by (simp add: prefix_prefix)
        have 6: "prefix ?pre (trace (final (unlock_databases_records w user_id ps (emit e s4))))" for ps e
          using records_prefix [of "emit e s4" w user_id ps] 5 [of e]
          by (rule prefix_order.trans [rotated])
        show ?thesis
          using Ret Pair 3 4 6
          by (cases v) (simp_all add: unlock_databases_unlocked [OF False] split: option.splits)
      qed
    qed
  qed
qed


section \<open>The lock check of the pipeline\<close>

text \<open>
  C10: when the \<open>Get\<close> call for \<open>LockedHint\<close> fails, \<open>is_locked\<close> answers true.
  An invocation of \<open>unlock_databases\<close> whose lock check cannot read the property
  therefore prints two lines and returns: it contacts no session bus, opens no file,
  starts no helper and calls no \<open>openDatabase\<close>, and the identity is untouched.
\<close>

theorem is_locked_fail_safe:
  "(dbus_LockedHint w (now s) session_path = None \<longrightarrow>
      is_locked w session_path s =
        (True, emit (Print Failed_to_get_LockedHint) (emit (Get_LockedHint session_path) s))) \<and>
   (dbus_LockedHint w (Suc (now s)) session_path = None \<longrightarrow>
      unlock_databases w user_id session_path wait_secs s =
        Ret () (emit (Print Skipping_unlock_still_locked)
                 (emit (Print Failed_to_get_LockedHint)
                   (emit (Get_LockedHint session_path)
                     (emit (Call_unlock_databases user_id session_path wait_secs) s)))) \<and>
      filter is_pipeline_step (trace (final (unlock_databases w user_id session_path wait_secs s))) =
        filter is_pipeline_step (trace s) \<and>
      euid (final (unlock_databases w user_id session_path wait_secs s)) = euid s)"
  by (simp add: unlock_databases_def is_locked_def Let_def)

theorem is_locked_fail_safe_witness:
  "dbus_LockedHint world_unreadable (now root_proc) ''/session/c3'' = None \<and>
   fst (is_locked world_unreadable ''/session/c3'' root_proc) \<and>
   dbus_LockedHint world_unreadable (Suc (now root_proc)) ''/session/c3'' = None \<and>
   trace (final (unlock_databases world_unreadable 1000 ''/session/c3'' 10 root_proc)) =
     [Call_unlock_databases 1000 ''/session/c3'' 10, Get_LockedHint ''/session/c3'',
      Print Failed_to_get_LockedHint, Print Skipping_unlock_still_locked] \<and>
   filter is_pipeline_step
     (trace (final (unlock_databases world_unreadable 1000 ''/session/c3'' 10 root_proc))) = []"
  using is_locked_fail_safe [of world_unreadable root_proc "''/session/c3''" 1000 10]
  by (simp add: world_unreadable_def world_ok_def root_proc_def now_def)

text \<open>
  C5: every invocation of \<open>unlock_databases\<close> begins by reading \<open>LockedHint\<close>. When
  the hint is true the invocation prints one line and returns: nothing of the service
  discovery, the checksum comparison, the decryption or the unlock calls happens, and the
  effective uid and the environment are as they were.
\<close>

theorem unlock_databases_lock_guard:
  "prefix (trace s @ [Call_unlock_databases user_id session_path wait_secs, Get_LockedHint session_path])
     (trace (final (unlock_databases w user_id session_path wait_secs s))) \<and>
   (dbus_LockedHint w (Suc (now s)) session_path = Some True \<longrightarrow>
      unlock_databases w user_id session_path wait_secs s =
        Ret () (emit (Print Skipping_unlock_still_locked)
                 (emit (Get_LockedHint session_path)
                   (emit (Call_unlock_databases user_id session_path wait_secs) s))) \<and>
      filter is_pipeline_step (trace (final (unlock_databases w user_id session_path wait_secs s))) =
        filter is_pipeline_step (trace s) \<and>
      euid (final (unlock_databases w user_id session_path wait_secs s)) = euid s \<and>
      DBUS_SESSION_BUS_ADDRESS (final (unlock_databases w user_id session_path wait_secs s)) =
        DBUS_SESSION_BUS_ADDRESS s)"
proof -
  have "dbus_LockedHint w (Suc (now s)) session_path = Some True \<Longrightarrow>
      unlock_databases w user_id session_path wait_secs s =
        Ret () (emit (Print Skipping_unlock_still_locked)
                 (emit (Get_LockedHint session_path)
                   (emit (Call_unlock_databases user_id session_path wait_secs) s)))"
    by (simp add: unlock_databases_def is_locked_def Let_def)
  then show ?thesis
    using unlock_databases_prefix [of s user_id session_path wait_secs w] by simp
qed

theorem unlock_databases_lock_guard_witness:
  "dbus_LockedHint world_locked (Suc (now root_proc)) ''/session/c3'' = Some True \<and>
   trace (final (unlock_databases world_locked 1000 ''/session/c3'' 10 root_proc)) =
     [Call_unlock_databases 1000 ''/session/c3'' 10, Get_LockedHint ''/session/c3'',
      Print Skipping_unlock_still_locked] \<and>
   euid (final (unlock_databases world_locked 1000 ''/session/c3'' 10 root_proc)) = 0 \<and>
   DBUS_SESSION_BUS_ADDRESS (final (unlock_databases world_locked 1000 ''/session/c3'' 10 root_proc)) = None"
  using unlock_databases_lock_guard [of root_proc 1000 "''/session/c3''" 10 world_locked]
  by (simp add: world_locked_def world_ok_def root_proc_def now_def)

section \<open>The identity after an invocation\<close>

text \<open>
  C2: an invocation of \<open>unlock_databases\<close> that starts as root and returns, returns as
  root, on whichever path it returns. The same holds for each probe of the session bus and
  for the body of the loop over the configurations, so that every configuration is
  processed starting as root. (An invocation that does not return has ended the process
  in \<open>change_euid\<close>.)
\<close>

theorem unlock_databases_returns_as_root:
  assumes "euid s = 0"
  shows "(\<forall>s'. unlock_databases w user_id session_path wait_secs s = Ret () s' \<longrightarrow> euid s' = 0) \<and>
    (\<forall>log_error kp_pid s'. unlock_databases_probe w user_id log_error s = Ret kp_pid s' \<longrightarrow> euid s' = 0) \<and>
    (\<forall>conf_path s'. unlock_databases_record w user_id conf_path s = Ret () s' \<longrightarrow> euid s' = 0) \<and>
    (\<forall>gl_pathv s'. unlock_databases_records w user_id gl_pathv s = Ret () s' \<longrightarrow> euid s' = 0)"
  using assms
  by (auto dest: unlock_databases_root probe_root record_root records_root)

theorem unlock_databases_returns_as_root_witness:
  "euid root_proc = 0 \<and>
   returned (unlock_databases world_ok 1000 ''/session/c3'' 10 root_proc) \<and>
   euid (final (unlock_databases world_ok 1000 ''/session/c3'' 10 root_proc)) = 0 \<and>
   returned (unlock_databases world_tampered 1000 ''/session/c3'' 10 root_proc) \<and>
   euid (final (unlock_databases world_tampered 1000 ''/session/c3'' 10 root_proc)) = 0"
proof -
  have r: "euid root_proc = 0" by (simp add: root_proc_def)
  have 1: "returned (unlock_databases world_ok 1000 ''/session/c3'' 10 root_proc)"
    by code_simp
  have 2: "returned (unlock_databases world_tampered 1000 ''/session/c3'' 10 root_proc)"
    by code_simp
  from 1 obtain s1 where s1: "unlock_databases world_ok 1000 ''/session/c3'' 10 root_proc = Ret () s1"
    by (cases "unlock_databases world_ok 1000 ''/session/c3'' 10 root_proc") auto
  from 2 obtain s2 where s2: "unlock_databases world_tampered 1000 ''/session/c3'' 10 root_proc = Ret () s2"
    by (cases "unlock_databases world_tampered 1000 ''/session/c3'' 10 root_proc") auto
  show ?thesis
    using unlock_databases_returns_as_root [OF r, of world_ok 1000 "''/session/c3''" 10]
      unlock_databases_returns_as_root [OF r, of world_tampered 1000 "''/session/c3''" 10]
      r 1 2 s1 s2
    by simp
qed


section \<open>Service discovery\<close>

lemma probe_one_probe:
  assumes "unlock_databases_probe w user_id log_error s = Ret kp_pid s'"
  shows "length (filter is_probe (trace s')) = Suc (length (filter is_probe (trace s)))"
proof -
  obtain x s1 where c: "change_euid w user_id s = Ret x s1"
    using assms by (cases "change_euid w user_id s") (simp_all add: unlock_databases_probe_def)
  obtain pid s2 where g: "get_dbus_service_process_id w KP_DBUS_INTERFACE log_error s1 = (pid, s2)"
    by (cases "get_dbus_service_process_id w KP_DBUS_INTERFACE log_error s1")
  have 1: "filter is_probe (trace s1) = filter is_probe (trace s)"
    using change_euid_filter [of is_probe user_id w s] c by simp
  have 2: "filter is_probe (trace s2) = filter is_probe (trace s1) @ [Bus_get_session (euid s1)]"
    using get_pid_probes [of w KP_DBUS_INTERFACE log_error s1] g by simp
  have 3: "filter is_probe (trace (final (change_euid w 0 s2))) = filter is_probe (trace s2)"
    using change_euid_filter [of is_probe 0 w s2] by simp
  have "final (change_euid w 0 s2) = s'"
    using assms c g by (cases "change_euid w 0 s2") (simp_all add: unlock_databases_probe_def)
  then show ?thesis using 1 2 3 by simp
qed

lemma poll_exhausted:
  "unlock_databases_poll w user_id wait_secs i s = Ret 0 s' \<Longrightarrow>
     length (filter is_probe (trace s')) = length (filter is_probe (trace s)) + nat (wait_secs - i)"
proof (induction w user_id wait_secs i s rule: unlock_databases_poll.induct)
  case (1 w user_id wait_secs i s)
  show ?case
  proof (cases "i < wait_secs")
    case False
    then show ?thesis
      using "1.prems" by (subst (asm) unlock_databases_poll.simps) auto
  next
    case True
    show ?thesis
    proof (cases "unlock_databases_probe w user_id (i = wait_secs - 1) s")
      case (Exit s3)
      then show ?thesis
        using True "1.prems" by (subst (asm) unlock_databases_poll.simps) simp
    next
      case (Ret pid s3)
      have p: "length (filter is_probe (trace s3)) = Suc (length (filter is_probe (trace s)))"
        using Ret by (rule probe_one_probe)
      show ?thesis
      proof (cases "pid = 0")
        case False
        then show ?thesis
          using True Ret "1.prems" by (subst (asm) unlock_databases_poll.simps) simp
      next
        case z: True
        have "unlock_databases_poll w user_id wait_secs (i + 1) (emit (Sleep 1) s3) = Ret 0 s'"
          using True Ret z "1.prems" by (subst (asm) unlock_databases_poll.simps) simp
        then have "length (filter is_probe (trace s')) =
            length (filter is_probe (trace (emit (Sleep 1) s3))) + nat (wait_secs - (i + 1))"
          using "1.IH" [OF True Ret] z by simp
        then show ?thesis
          using p True by simp
      qed
    qed
  qed
qed

text \<open>
  C9: in an invocation entered as root, the loop that looks for KeePassXC on the session
  bus makes at most \<open>wait_secs\<close> probes; it sleeps one second after each probe that found
  nothing, so the probes number at most one more than the seconds slept, and it sleeps at
  most \<open>wait_secs\<close> seconds. Every probe follows a \<open>change_euid(user_id)\<close> and runs
  under the user's uid (under uid 0 only where that \<open>seteuid\<close> was refused), and is
  followed by \<open>change_euid(0)\<close>: when the loop is left by a return the process is root.
  The loop yields 0 only after all \<open>wait_secs\<close> probes; the invocation then prints that
  KeePassXC could not be reached and returns without any \<open>openDatabase\<close> call.
\<close>

theorem service_discovery_bounded:
  fixes w user_id session_path wait_secs s0
  defines "locked \<equiv> is_locked w session_path (emit (Call_unlock_databases user_id session_path wait_secs) s0)"
  defines "s \<equiv> (snd locked)\<lparr>DBUS_SESSION_BUS_ADDRESS :=
      Some (snprintf 128 (''unix:path=/run/user/'' @ printf_d user_id @ ''/bus''))\<rparr>"
  defines "r \<equiv> unlock_databases_poll w user_id wait_secs 0 s"
  assumes "euid s0 = 0"
  shows "(\<exists>ps. filter is_probe (trace (final r)) = filter is_probe (trace s) @ ps \<and>
            length ps \<le> nat wait_secs \<and>
            set ps \<subseteq> {Bus_get_session user_id, Bus_get_session 0} \<and>
            ((\<forall>t. sys_seteuid w t user_id) \<longrightarrow> set ps \<subseteq> {Bus_get_session user_id}) \<and>
            length ps + slept (trace s) \<le> slept (trace (final r)) + 1 \<and>
            slept (trace (final r)) \<le> slept (trace s) + nat wait_secs) \<and>
    (\<forall>kp_pid s'. r = Ret kp_pid s' \<longrightarrow> euid s' = 0) \<and>
    (\<forall>s'. r = Ret 0 s' \<longrightarrow>
       length (filter is_probe (trace s')) = length (filter is_probe (trace s)) + nat wait_secs) \<and>
    (\<not> fst locked \<longrightarrow>
       (\<forall>s'. r = Ret 0 s' \<longrightarrow>
          unlock_databases w user_id session_path wait_secs s0 =
            Ret () (emit (Print (Failed_to_connect_to_KeePassXC wait_secs)) s') \<and>
          filter is_unlock (trace (final (unlock_databases w user_id session_path wait_secs s0))) =
            filter is_unlock (trace s0)))"
proof -
  have e: "euid s = 0"
    using assms(4) by (simp add: s_def locked_def)
  have a: "\<exists>ps. filter is_probe (trace (final r)) = filter is_probe (trace s) @ ps \<and>
            length ps \<le> nat wait_secs \<and>
            set ps \<subseteq> {Bus_get_session user_id, Bus_get_session 0} \<and>
            ((\<forall>t. sys_seteuid w t user_id) \<longrightarrow> set ps \<subseteq> {Bus_get_session user_id}) \<and>
            length ps + slept (trace s) \<le> slept (trace (final r)) + 1 \<and>
            slept (trace (final r)) \<le> slept (trace s) + nat wait_secs"
    using poll_probes [OF e, of w user_id wait_secs 0] by (simp add: r_def)
  have b: "\<forall>kp_pid s'. r = Ret kp_pid s' \<longrightarrow> euid s' = 0"
    using poll_root [OF e] by (auto simp: r_def)
  have c: "\<forall>s'. r = Ret 0 s' \<longrightarrow>
       length (filter is_probe (trace s')) = length (filter is_probe (trace s)) + nat wait_secs"
    using poll_exhausted [of w user_id wait_secs 0 s] by (auto simp: r_def)
  have d: "unlock_databases w user_id session_path wait_secs s0 =
            Ret () (emit (Print (Failed_to_connect_to_KeePassXC wait_secs)) s') \<and>
          filter is_unlock (trace (final (unlock_databases w user_id session_path wait_secs s0))) =
            filter is_unlock (trace s0)"
    if "\<not> fst locked" and "r = Ret 0 s'" for s'
  proof -
    have l: "\<not> fst (is_locked w session_path
        (emit (Call_unlock_databases user_id session_path wait_secs) s0))"
      using that(1) by (simp add: locked_def)
    have 1: "unlock_databases w user_id session_path wait_secs s0 =
        Ret () (emit (Print (Failed_to_connect_to_KeePassXC wait_secs)) s')"
      using that(2) unfolding unlock_databases_unlocked [OF l] r_def s_def locked_def
      by simp
    have "filter is_unlock (trace (final r)) = filter is_unlock (trace s)"
      unfolding r_def by (intro poll_filter) auto
    moreover have "filter is_unlock (trace (snd locked)) =
        filter is_unlock (trace (emit (Call_unlock_databases user_id session_path wait_secs) s0))"
      unfolding locked_def by (intro is_locked_filter) auto
    ultimately have 2: "filter is_unlock (trace s') = filter is_unlock (trace s0)"
      using that(2) by (simp add: s_def)
    show ?thesis using 1 2 by simp
  qed
  show ?thesis
    using a b c d by blast
qed

theorem service_discovery_bounded_witness:
  "euid root_proc = 0 \<and>
   trace (final (unlock_databases world_absent 1000 ''/session/c3'' 2 root_proc)) =
     [Call_unlock_databases 1000 ''/session/c3'' 2, Get_LockedHint ''/session/c3'',
      Seteuid 1000, Bus_get_session 1000,
      GetConnectionUnixProcessID ''org.keepassxc.KeePassXC.MainWindow'', Seteuid 0, Sleep 1,
      Seteuid 1000, Bus_get_session 1000,
      GetConnectionUnixProcessID ''org.keepassxc.KeePassXC.MainWindow'', Seteuid 0, Sleep 1,
      Print (Failed_to_connect_to_KeePassXC 2)] \<and>
   euid (final (unlock_databases world_absent 1000 ''/session/c3'' 2 root_proc)) = 0 \<and>
   filter is_unlock (trace (final (unlock_databases world_absent 1000 ''/session/c3'' 2 root_proc))) =
     filter is_unlock (trace root_proc)"
proof -
  have r: "euid root_proc = 0" by (simp add: root_proc_def)
  have t: "trace (final (unlock_databases world_absent 1000 ''/session/c3'' 2 root_proc)) =
     [Call_unlock_databases 1000 ''/session/c3'' 2, Get_LockedHint ''/session/c3'',
      Seteuid 1000, Bus_get_session 1000,
      GetConnectionUnixProcessID ''org.keepassxc.KeePassXC.MainWindow'', Seteuid 0, Sleep 1,
      Seteuid 1000, Bus_get_session 1000,
      GetConnectionUnixProcessID ''org.keepassxc.KeePassXC.MainWindow'', Seteuid 0, Sleep 1,
      Print (Failed_to_connect_to_KeePassXC 2)]"
    by code_simp
  have e: "euid (final (unlock_databases world_absent 1000 ''/session/c3'' 2 root_proc)) = 0"
    by code_simp
  have l: "\<not> fst (is_locked world_absent ''/session/c3''
      (emit (Call_unlock_databases 1000 ''/session/c3'' 2) root_proc))"
    by code_simp
  have p: "returned (unlock_databases_poll world_absent 1000 2 0
      ((snd (is_locked world_absent ''/session/c3''
          (emit (Call_unlock_databases 1000 ''/session/c3'' 2) root_proc)))
        \<lparr>DBUS_SESSION_BUS_ADDRESS :=
           Some (snprintf 128 (''unix:path=/run/user/'' @ printf_d 1000 @ ''/bus''))\<rparr>)) \<and>
     (case unlock_databases_poll world_absent 1000 2 0
      ((snd (is_locked world_absent ''/session/c3''
          (emit (Call_unlock_databases 1000 ''/session/c3'' 2) root_proc)))
        \<lparr>DBUS_SESSION_BUS_ADDRESS :=
           Some (snprintf 128 (''unix:path=/run/user/'' @ printf_d 1000 @ ''/bus''))\<rparr>) of
        Exit s' \<Rightarrow> False | Ret kp_pid s' \<Rightarrow> kp_pid = 0)"
    by code_simp
  then obtain s' where s': "unlock_databases_poll world_absent 1000 2 0
      ((snd (is_locked world_absent ''/session/c3''
          (emit (Call_unlock_databases 1000 ''/session/c3'' 2) root_proc)))
        \<lparr>DBUS_SESSION_BUS_ADDRESS :=
           Some (snprintf 128 (''unix:path=/run/user/'' @ printf_d 1000 @ ''/bus''))\<rparr>) = Ret 0 s'"
    by (auto split: outcome.splits)
  have "filter is_unlock (trace (final (unlock_databases world_absent 1000 ''/session/c3'' 2 root_proc))) =
     filter is_unlock (trace root_proc)"
    using service_discovery_bounded [OF r, where w = world_absent and session_path = "''/session/c3''"
        and user_id = 1000 and wait_secs = 2] l s'
    by blast
  then show ?thesis using r t e by simp
qed


section \<open>The comparison of the executable with the recorded checksum\<close>

lemma verify_match_iff:
  "fst (unlock_databases_verify w user_id dir kp_pid s) = Match \<longleftrightarrow>
     (\<exists>cs current line rest.
        fs_file w (now s) (snprintf 128 (dir @ ''/keepassxc.sha512'')) = Contents cs \<and>
        fst (sha512sum w (snprintf 128 (''/proc/'' @ printf_d kp_pid @ ''/exe'')) SHA512_BUFFER_SIZE
              (emit (Fopen (snprintf 128 (dir @ ''/keepassxc.sha512''))) s)) = Some current \<and>
        current \<noteq> [] \<and>
        fgets SHA512_BUFFER_SIZE cs = Some (line, rest) \<and>
        current = chop_newline line)"
proof (cases "fs_file w (now s) (snprintf 128 (dir @ ''/keepassxc.sha512''))")
  case Cannot_open
  then show ?thesis by (simp add: verify_missing)
next
  case Read_error
  then have "fs_file w (now s) (snprintf 128 (dir @ ''/keepassxc.sha512'')) \<noteq> Cannot_open"
    by simp
  from verify_opened [OF this] Read_error show ?thesis
    by (simp split: option.splits)
next
  case (Contents cs)
  then have "fs_file w (now s) (snprintf 128 (dir @ ''/keepassxc.sha512'')) \<noteq> Cannot_open"
    by simp
  from verify_opened [OF this] Contents show ?thesis
    by (auto split: option.splits)
qed

lemma verify_alert:
  assumes "fs_file w (now s) (snprintf 128 (dir @ ''/keepassxc.sha512'')) \<noteq> Cannot_open"
    and "fst (unlock_databases_verify w user_id dir kp_pid s) = Mismatch"
  shows "filter is_alert (trace (snd (unlock_databases_verify w user_id dir kp_pid s))) =
    filter is_alert (trace s) @
      [System_notify_send user_id kp_pid
         (case fs_readlink w
                 (now (snd (sha512sum w (snprintf 128 (''/proc/'' @ printf_d kp_pid @ ''/exe''))
                         SHA512_BUFFER_SIZE (emit (Fopen (snprintf 128 (dir @ ''/keepassxc.sha512''))) s))))
                 (snprintf 128 (''/proc/'' @ printf_d kp_pid @ ''/exe'')) of
            None \<Rightarrow> snprintf 128 (''/proc/'' @ printf_d kp_pid @ ''/exe'')
          | Some target \<Rightarrow>
              if length (take (PATH_MAX - 1) target) > 0
              then cstr (take (PATH_MAX - 1) target)
              else snprintf 128 (''/proc/'' @ printf_d kp_pid @ ''/exe''))]"
proof -
  have "filter is_alert (trace (snd (sha512sum w (snprintf 128 (''/proc/'' @ printf_d kp_pid @ ''/exe''))
      SHA512_BUFFER_SIZE (emit (Fopen (snprintf 128 (dir @ ''/keepassxc.sha512''))) s)))) =
    filter is_alert (trace (emit (Fopen (snprintf 128 (dir @ ''/keepassxc.sha512''))) s))"
    by (intro sha512sum_filter) auto
  then show ?thesis
    using assms(2) unfolding verify_opened [OF assms(1)]
    by (simp split: if_splits)
qed

lemma verify_no_alert:
  assumes "fs_file w (now s) (snprintf 128 (dir @ ''/keepassxc.sha512'')) = Cannot_open \<or>
    fst (unlock_databases_verify w user_id dir kp_pid s) = Match"
  shows "filter is_alert (trace (snd (unlock_databases_verify w user_id dir kp_pid s))) =
    filter is_alert (trace s)"
proof (cases "fs_file w (now s) (snprintf 128 (dir @ ''/keepassxc.sha512'')) = Cannot_open")
  case True
  then show ?thesis by (simp add: verify_missing)
next
  case False
  have "filter is_alert (trace (snd (sha512sum w (snprintf 128 (''/proc/'' @ printf_d kp_pid @ ''/exe''))
      SHA512_BUFFER_SIZE (emit (Fopen (snprintf 128 (dir @ ''/keepassxc.sha512''))) s)))) =
    filter is_alert (trace (emit (Fopen (snprintf 128 (dir @ ''/keepassxc.sha512''))) s))"
    by (intro sha512sum_filter) auto
  then show ?thesis
    using assms False unfolding verify_opened [OF False]
    by (simp split: if_splits)
qed

lemma unlock_databases_mismatch:
  assumes "\<not> fst (is_locked w session_path (emit (Call_unlock_databases user_id session_path wait_secs) s0))"
    and "unlock_databases_poll w user_id wait_secs 0
           ((snd (is_locked w session_path (emit (Call_unlock_databases user_id session_path wait_secs) s0)))
              \<lparr>DBUS_SESSION_BUS_ADDRESS :=
                 Some (snprintf 128 (''unix:path=/run/user/'' @ printf_d user_id @ ''/bus''))\<rparr>) =
         Ret kp_pid s3"
    and "kp_pid \<noteq> 0"
    and "fst (unlock_databases_verify w user_id
           (snprintf 100 (KP_CONFIG_DIR w @ ''/'' @ printf_d user_id)) kp_pid s3) = Mismatch"
  shows "unlock_databases w user_id session_path wait_secs s0 =
      Ret () (snd (unlock_databases_verify w user_id
           (snprintf 100 (KP_CONFIG_DIR w @ ''/'' @ printf_d user_id)) kp_pid s3)) \<and>
    filter is_decrypt (trace (final (unlock_databases w user_id session_path wait_secs s0))) =
      filter is_decrypt (trace s0) \<and>
    filter is_unlock (trace (final (unlock_databases w user_id session_path wait_secs s0))) =
      filter is_unlock (trace s0)"
proof -
  let ?s = "emit (Call_unlock_databases user_id session_path wait_secs) s0"
  let ?s2 = "(snd (is_locked w session_path ?s))\<lparr>DBUS_SESSION_BUS_ADDRESS :=
                 Some (snprintf 128 (''unix:path=/run/user/'' @ printf_d user_id @ ''/bus''))\<rparr>"
  let ?v = "unlock_databases_verify w user_id
           (snprintf 100 (KP_CONFIG_DIR w @ ''/'' @ printf_d user_id)) kp_pid s3"
  have 1: "unlock_databases w user_id session_path wait_secs s0 = Ret () (snd ?v)"
    using assms(2-4) unfolding unlock_databases_unlocked [OF assms(1)]
    by (cases ?v) simp
  have l: "filter P (trace (snd (is_locked w session_path ?s))) = filter P (trace s0)"
    if "\<And>p. \<not> P (Get_LockedHint p)" "\<And>m. \<not> P (Print m)" "\<And>u p n. \<not> P (Call_unlock_databases u p n)"
    for P
    using is_locked_filter [of P session_path w ?s] that by simp
  have p: "filter P (trace s3) = filter P (trace ?s2)"
    if "\<And>u. \<not> P (Seteuid u)" "\<And>m. \<not> P (Print m)" "\<And>n. \<not> P (Exit_process n)"
      "\<And>u. \<not> P (Bus_get_session u)" "\<And>a. \<not> P (GetConnectionUnixProcessID a)"
      "\<And>n. \<not> P (Sleep n)" for P
    using poll_filter [of P w user_id wait_secs 0 ?s2] that assms(2) by simp
  have v: "filter P (trace (snd ?v)) = filter P (trace s3)"
    if "\<And>p. \<not> P (Fopen p)" "\<And>p. \<not> P (Open_read p)" "\<And>m. \<not> P (Print m)"
      "\<And>p. \<not> P (Readlink p)" "\<And>u p e. \<not> P (System_notify_send u p e)" for P
    using that by (intro verify_filter) auto
  have 2: "filter is_decrypt (trace (snd ?v)) = filter is_decrypt (trace s0)"
    using l [of is_decrypt] p [of is_decrypt] v [of is_decrypt] by simp
  have 3: "filter is_unlock (trace (snd ?v)) = filter is_unlock (trace s0)"
    using l [of is_unlock] p [of is_unlock] v [of is_unlock] by simp
  show ?thesis
    using 1 2 3 by simp
qed

text \<open>
  C1, as the code has it. The checksum block lets the invocation go on (\<open>Match\<close>)
  exactly when the recorded checksum could be opened, the executable was hashed to a
  non-empty string, a line could be read from the record, and the hash equals that line
  cut at its first newline. In every other case \<open>unlock_databases\<close> returns at once,
  having started no decryption and made no \<open>openDatabase\<close> call. When the record could
  be opened, a mismatch sends one \<open>notify-send\<close> alert with the process id and the
  target of \<open>/proc/pid/exe\<close> (the link itself when \<open>readlink\<close> fails); when the record
  is missing the program only prints that the setup has to be run, and sends no alert.
\<close>

theorem integrity_check_verdict:
  fixes w user_id dir kp_pid s
  defines "kp_sha512_file \<equiv> snprintf 128 (dir @ ''/keepassxc.sha512'')"
  defines "kp_exe \<equiv> snprintf 128 (''/proc/'' @ printf_d kp_pid @ ''/exe'')"
  defines "hashed \<equiv> sha512sum w kp_exe SHA512_BUFFER_SIZE (emit (Fopen kp_sha512_file) s)"
  defines "kp_exe_real \<equiv>
     (case fs_readlink w (now (snd hashed)) kp_exe of
        None \<Rightarrow> kp_exe
      | Some target \<Rightarrow>
          if length (take (PATH_MAX - 1) target) > 0
          then cstr (take (PATH_MAX - 1) target) else kp_exe)"
  defines "r \<equiv> unlock_databases_verify w user_id dir kp_pid s"
  shows "(fst r = Match \<longleftrightarrow>
      (\<exists>cs current line rest.
         fs_file w (now s) kp_sha512_file = Contents cs \<and>
         fst hashed = Some current \<and> current \<noteq> [] \<and>
         fgets SHA512_BUFFER_SIZE cs = Some (line, rest) \<and>
         current = chop_newline line)) \<and>
    (fst r = Match \<longrightarrow> filter is_alert (trace (snd r)) = filter is_alert (trace s)) \<and>
    (fs_file w (now s) kp_sha512_file = Cannot_open \<longrightarrow>
       r = (Mismatch, emit (Print (Skipping_unlock_missing kp_sha512_file))
                        (emit (Fopen kp_sha512_file) s))) \<and>
    (fst r = Mismatch \<and> fs_file w (now s) kp_sha512_file \<noteq> Cannot_open \<longrightarrow>
       filter is_alert (trace (snd r)) =
         filter is_alert (trace s) @ [System_notify_send user_id kp_pid kp_exe_real]) \<and>
    (\<forall>session_path wait_secs s0.
       dir = snprintf 100 (KP_CONFIG_DIR w @ ''/'' @ printf_d user_id) \<and>
       \<not> fst (is_locked w session_path (emit (Call_unlock_databases user_id session_path wait_secs) s0)) \<and>
       unlock_databases_poll w user_id wait_secs 0
         ((snd (is_locked w session_path (emit (Call_unlock_databases user_id session_path wait_secs) s0)))
            \<lparr>DBUS_SESSION_BUS_ADDRESS :=
               Some (snprintf 128 (''unix:path=/run/user/'' @ printf_d user_id @ ''/bus''))\<rparr>) =
         Ret kp_pid s \<and>
       kp_pid \<noteq> 0 \<and> fst r = Mismatch \<longrightarrow>
       unlock_databases w user_id session_path wait_secs s0 = Ret () (snd r) \<and>
       filter is_decrypt (trace (final (unlock_databases w user_id session_path wait_secs s0))) =
         filter is_decrypt (trace s0) \<and>
       filter is_unlock (trace (final (unlock_databases w user_id session_path wait_secs s0))) =
         filter is_unlock (trace s0))"
proof -
  have a: "fst r = Match \<longleftrightarrow>
      (\<exists>cs current line rest.
         fs_file w (now s) kp_sha512_file = Contents cs \<and>
         fst hashed = Some current \<and> current \<noteq> [] \<and>
         fgets SHA512_BUFFER_SIZE cs = Some (line, rest) \<and>
         current = chop_newline line)"
    unfolding r_def hashed_def kp_exe_def kp_sha512_file_def by (rule verify_match_iff)
  have b: "fst r = Match \<longrightarrow> filter is_alert (trace (snd r)) = filter is_alert (trace s)"
    unfolding r_def using verify_no_alert [of w s dir user_id kp_pid] by simp
  have c: "fs_file w (now s) kp_sha512_file = Cannot_open \<longrightarrow>
       r = (Mismatch, emit (Print (Skipping_unlock_missing kp_sha512_file))
                        (emit (Fopen kp_sha512_file) s))"
    unfolding r_def kp_sha512_file_def by (simp add: verify_missing)
  have d: "fst r = Mismatch \<and> fs_file w (now s) kp_sha512_file \<noteq> Cannot_open \<longrightarrow>
       filter is_alert (trace (snd r)) =
         filter is_alert (trace s) @ [System_notify_send user_id kp_pid kp_exe_real]"
    unfolding r_def kp_exe_real_def hashed_def kp_exe_def kp_sha512_file_def
    using verify_alert [of w s dir user_id kp_pid] by simp
  have e: "unlock_databases w user_id session_path wait_secs s0 = Ret () (snd r) \<and>
       filter is_decrypt (trace (final (unlock_databases w user_id session_path wait_secs s0))) =
         filter is_decrypt (trace s0) \<and>
       filter is_unlock (trace (final (unlock_databases w user_id session_path wait_secs s0))) =
         filter is_unlock (trace s0)"
    if "dir = snprintf 100 (KP_CONFIG_DIR w @ ''/'' @ printf_d user_id)"
      "\<not> fst (is_locked w session_path (emit (Call_unlock_databases user_id session_path wait_secs) s0))"
      "unlock_databases_poll w user_id wait_secs 0
         ((snd (is_locked w session_path (emit (Call_unlock_databases user_id session_path wait_secs) s0)))
            \<lparr>DBUS_SESSION_BUS_ADDRESS :=
               Some (snprintf 128 (''unix:path=/run/user/'' @ printf_d user_id @ ''/bus''))\<rparr>) =
         Ret kp_pid s"
      "kp_pid \<noteq> 0" "fst r = Mismatch"
    for session_path wait_secs s0
  proof -
    have v: "unlock_databases_verify w user_id
        (snprintf 100 (KP_CONFIG_DIR w @ ''/'' @ printf_d user_id)) kp_pid s = r"
      using that(1) by (simp add: r_def)
    have m: "fst (unlock_databases_verify w user_id
        (snprintf 100 (KP_CONFIG_DIR w @ ''/'' @ printf_d user_id)) kp_pid s) = Mismatch"
      using that(5) v by simp
    show ?thesis
      using unlock_databases_mismatch [OF that(2) that(3) that(4) m] unfolding v .
  qed
  show ?thesis
    using a b c d e by blast
qed

theorem integrity_check_verdict_witness:
  "fst (unlock_databases_verify world_ok 1000 ''/etc/keepassxc-unlock/1000'' 4242 root_proc) = Match \<and>
   filter is_alert
     (trace (snd (unlock_databases_verify world_ok 1000 ''/etc/keepassxc-unlock/1000'' 4242 root_proc))) = [] \<and>
   fst (unlock_databases_verify world_tampered 1000 ''/etc/keepassxc-unlock/1000'' 4242 root_proc) =
     Mismatch \<and>
   fs_file world_tampered (now root_proc) ''/etc/keepassxc-unlock/1000/keepassxc.sha512'' \<noteq> Cannot_open \<and>
   filter is_alert
     (trace (snd (unlock_databases_verify world_tampered 1000 ''/etc/keepassxc-unlock/1000'' 4242 root_proc))) =
     [System_notify_send 1000 4242 ''/usr/bin/keepassxc''] \<and>
   fs_file world_nobase (now root_proc) ''/etc/keepassxc-unlock/1000/keepassxc.sha512'' = Cannot_open \<and>
   fst (unlock_databases_verify world_nobase 1000 ''/etc/keepassxc-unlock/1000'' 4242 root_proc) =
     Mismatch \<and>
   filter is_unlock (trace (final (unlock_databases world_tampered 1000 ''/session/c3'' 10 root_proc))) =
     filter is_unlock (trace root_proc)"
proof -
  let ?dir = "''/etc/keepassxc-unlock/1000''"
  let ?s2 = "(snd (is_locked world_tampered ''/session/c3''
                (emit (Call_unlock_databases 1000 ''/session/c3'' 10) root_proc)))
             \<lparr>DBUS_SESSION_BUS_ADDRESS :=
                Some (snprintf 128 (''unix:path=/run/user/'' @ printf_d 1000 @ ''/bus''))\<rparr>"
  let ?poll = "unlock_databases_poll world_tampered 1000 10 0 ?s2"
  have m: "fst (unlock_databases_verify world_ok 1000 ?dir 4242 root_proc) = Match"
    by code_simp
  have t: "fst (unlock_databases_verify world_tampered 1000 ?dir 4242 root_proc) = Mismatch"
    by code_simp
  have q: "snprintf 128 (?dir @ ''/keepassxc.sha512'') = ''/etc/keepassxc-unlock/1000/keepassxc.sha512''"
    by code_simp
  have f: "fs_file world_tampered (now root_proc) (snprintf 128 (?dir @ ''/keepassxc.sha512'')) \<noteq> Cannot_open"
    by code_simp
  have n: "fs_file world_nobase (now root_proc) (snprintf 128 (?dir @ ''/keepassxc.sha512'')) = Cannot_open"
    by code_simp
  have k: "(case fs_readlink world_tampered
              (now (snd (sha512sum world_tampered (snprintf 128 (''/proc/'' @ printf_d 4242 @ ''/exe''))
                 SHA512_BUFFER_SIZE (emit (Fopen (snprintf 128 (?dir @ ''/keepassxc.sha512''))) root_proc))))
              (snprintf 128 (''/proc/'' @ printf_d 4242 @ ''/exe'')) of
            None \<Rightarrow> snprintf 128 (''/proc/'' @ printf_d 4242 @ ''/exe'')
          | Some target \<Rightarrow>
              if length (take (PATH_MAX - 1) target) > 0
              then cstr (take (PATH_MAX - 1) target)
              else snprintf 128 (''/proc/'' @ printf_d 4242 @ ''/exe'')) = ''/usr/bin/keepassxc''"
    by code_simp
  have e: "filter is_alert (trace root_proc) = []"
    by code_simp
  have p: "returned ?poll \<and> (case ?poll of Exit s' \<Rightarrow> False | Ret kp_pid s' \<Rightarrow> kp_pid = 4242)"
    by code_simp
  then have p': "?poll = Ret 4242 (final ?poll)"
    by (cases ?poll) auto
  have l: "\<not> fst (is_locked world_tampered ''/session/c3''
      (emit (Call_unlock_databases 1000 ''/session/c3'' 10) root_proc))"
    by code_simp
  have d: "?dir = snprintf 100 (KP_CONFIG_DIR world_tampered @ ''/'' @ printf_d 1000)"
    by code_simp
  have t': "fst (unlock_databases_verify world_tampered 1000 ?dir 4242 (final ?poll)) = Mismatch"
    by code_simp
  have z: "(4242 :: guint32) \<noteq> 0"
    by simp
  note ok = integrity_check_verdict [of world_ok 1000 ?dir 4242 root_proc]
  note bad = integrity_check_verdict [of world_tampered 1000 ?dir 4242 root_proc]
  note none = integrity_check_verdict [of world_nobase 1000 ?dir 4242 root_proc]
  note pipe = integrity_check_verdict [of world_tampered 1000 ?dir 4242 "final ?poll"]
  have 1: "filter is_alert (trace (snd (unlock_databases_verify world_ok 1000 ?dir 4242 root_proc))) = []"
    using ok m e by simp
  have 2: "filter is_alert (trace (snd (unlock_databases_verify world_tampered 1000 ?dir 4242 root_proc))) =
      [System_notify_send 1000 4242 ''/usr/bin/keepassxc'']"
    using bad t f e k by simp
  have 3: "fst (unlock_databases_verify world_nobase 1000 ?dir 4242 root_proc) = Mismatch"
    using none n by simp
  have 4: "filter is_unlock (trace (final (unlock_databases world_tampered 1000 ''/session/c3'' 10 root_proc))) =
      filter is_unlock (trace root_proc)"
    using pipe d l p' z t' by blast
  show ?thesis
    using m 1 t f 2 n 3 4 q by simp
qed

text \<open>
  C1 as the spec states it fails where the recorded checksum is missing: the verdict is a
  mismatch and the invocation makes no unlock call, but no alert is sent. Where the link
  of the executable cannot be read, the alert carries \<open>/proc/pid/exe\<close> unresolved.
\<close>

theorem missing_baseline_sends_no_alert:
  "fst (unlock_databases_verify world_nobase 1000 ''/etc/keepassxc-unlock/1000'' 4242 root_proc) = Mismatch \<and>
   filter is_alert
     (trace (snd (unlock_databases_verify world_nobase 1000 ''/etc/keepassxc-unlock/1000'' 4242 root_proc))) = [] \<and>
   returned (unlock_databases world_nobase 1000 ''/session/c3'' 10 root_proc) \<and>
   trace (final (unlock_databases world_nobase 1000 ''/session/c3'' 10 root_proc)) =
     [Call_unlock_databases 1000 ''/session/c3'' 10, Get_LockedHint ''/session/c3'',
      Seteuid 1000, Bus_get_session 1000,
      GetConnectionUnixProcessID ''org.keepassxc.KeePassXC.MainWindow'', Seteuid 0,
      Fopen ''/etc/keepassxc-unlock/1000/keepassxc.sha512'',
      Print (Skipping_unlock_missing ''/etc/keepassxc-unlock/1000/keepassxc.sha512'')] \<and>
   filter is_alert
     (trace (snd (unlock_databases_verify world_unresolved 1000 ''/etc/keepassxc-unlock/1000'' 4242 root_proc))) =
     [System_notify_send 1000 4242 ''/proc/4242/exe'']"
  by code_simp


section \<open>The session events\<close>

lemma unlock_databases_calls:
  "filter is_call (trace (final (unlock_databases w user_id session_path wait_secs s))) =
     filter is_call (trace s) @ [Call_unlock_databases user_id session_path wait_secs]"
  using unlock_databases_filter [of is_call w user_id session_path wait_secs s] by simp

lemma entry_calls:
  "filter is_call (trace (final (handle_session_event_entry w (key, val) d s))) =
     filter is_call (trace s) @
       (if key = ''LockedHint'' \<and> \<not> g_variant_get_boolean val \<and> session_locked d
        then [Call_unlock_databases (sd_user_id d) (sd_session_path d) 10]
        else if key = ''Active'' \<and> g_variant_get_boolean val \<and> \<not> session_active d \<and> \<not> session_locked d
        then [Call_unlock_databases (sd_user_id d) (sd_session_path d) 30]
        else [])"
proof -
  have 1: "filter is_call (trace (final (unlock_databases w (sd_user_id d) (sd_session_path d) n (emit (Print m) s)))) =
      filter is_call (trace s) @ [Call_unlock_databases (sd_user_id d) (sd_session_path d) n]" for n m
    using unlock_databases_calls [of w "sd_user_id d" "sd_session_path d" n "emit (Print m) s"] by simp
  show ?thesis
  proof (cases "key = ''LockedHint''")
    case True
    show ?thesis
    proof (cases "\<not> g_variant_get_boolean val \<and> session_locked d")
      case t: True
      show ?thesis
        using True t 1 [of 10 Unlocking_after_unlock_event]
        by (cases "unlock_databases w (sd_user_id d) (sd_session_path d) 10
              (emit (Print Unlocking_after_unlock_event) s)")
           (simp_all add: handle_session_event_entry_def Let_def)
    next
      case False
      then show ?thesis
        using True by (auto simp: handle_session_event_entry_def Let_def)
    qed
  next
    case nl: False
    show ?thesis
    proof (cases "key = ''Active''")
      case True
      show ?thesis
      proof (cases "g_variant_get_boolean val \<and> \<not> session_active d \<and> \<not> session_locked d")
        case t: True
        show ?thesis
          using True t 1 [of 30 Unlocking_after_activation_event]
          by (cases "unlock_databases w (sd_user_id d) (sd_session_path d) 30
                (emit (Print Unlocking_after_activation_event) s)")
             (simp_all add: handle_session_event_entry_def Let_def)
      next
        case False
        then show ?thesis
          using True by (auto simp: handle_session_event_entry_def Let_def)
      qed
    next
      case False
      then show ?thesis
        using nl by (simp add: handle_session_event_entry_def)
    qed
  qed
qed

lemma entry_Ret:
  assumes "handle_session_event_entry w (key, val) d s = Ret d' s'"
  shows "d' = (if key = ''LockedHint'' then d\<lparr>session_locked := g_variant_get_boolean val\<rparr>
               else if key = ''Active'' then d\<lparr>session_active := g_variant_get_boolean val\<rparr>
               else d)"
  using assms
  by (auto simp: handle_session_event_entry_def Let_def split: if_splits outcome.splits)

lemma single_final:
  "final (handle_session_event w [kv] d s) = final (handle_session_event_entry w kv d s)"
  by (cases "handle_session_event_entry w kv d s") simp_all

lemma event_Ret:
  "handle_session_event w kvs d s = Ret d' s' \<Longrightarrow>
     session_locked d' = last_value ''LockedHint'' kvs (session_locked d) \<and>
     session_active d' = last_value ''Active'' kvs (session_active d) \<and>
     sd_user_id d' = sd_user_id d \<and> sd_session_path d' = sd_session_path d"
proof (induction kvs arbitrary: d s)
  case Nil
  then show ?case by simp
next
  case (Cons kv kvs)
  obtain key val where kv: "kv = (key, val)" by (cases kv)
  show ?case
  proof (cases "handle_session_event_entry w kv d s")
    case (Exit s1)
    then show ?thesis using Cons.prems by simp
  next
    case (Ret d1 s1)
    have d1: "d1 = (if key = ''LockedHint'' then d\<lparr>session_locked := g_variant_get_boolean val\<rparr>
               else if key = ''Active'' then d\<lparr>session_active := g_variant_get_boolean val\<rparr>
               else d)"
      using Ret kv entry_Ret [of w key val d s d1 s1] by simp
    have "handle_session_event w kvs d1 s1 = Ret d' s'"
      using Cons.prems Ret by simp
    from Cons.IH [OF this] show ?thesis
      using d1 kv by (auto split: if_splits)
  qed
qed

section \<open>The loop over the configurations\<close>

lemma decrypt_None_iff:
  "fst (unlock_databases_decrypt w conf_path s) = None \<longleftrightarrow>
     fs_file w (now s) conf_path = Cannot_open \<or>
     (case sys_popen w (Suc (now s))
             (snd (snd (read_conf (file_stream (fs_file w (now s) conf_path)) [] [] 0)))
             conf_path (conf_name_of conf_path) of
        None \<Rightarrow> True
      | Some (output, status) \<Rightarrow> MAX_PASSWORD_SIZE \<le> length output)"
  by (cases "read_conf (file_stream (fs_file w (now s) conf_path)) [] [] 0")
     (auto simp: unlock_databases_decrypt_def Let_def min_def
        split: fcontent.splits option.splits if_splits prod.splits)

lemma decrypt_None_logged:
  "fst (unlock_databases_decrypt w conf_path s) = None \<Longrightarrow>
     \<exists>m. last (trace (snd (unlock_databases_decrypt w conf_path s))) = Print m"
  by (cases "read_conf (file_stream (fs_file w (now s) conf_path)) [] [] 0")
     (auto simp: unlock_databases_decrypt_def Let_def
        split: fcontent.splits option.splits if_splits prod.splits)

lemma record_skipped:
  assumes "fst (unlock_databases_decrypt w conf_path s) = None"
  shows "unlock_databases_record w user_id conf_path s =
      Ret () (snd (unlock_databases_decrypt w conf_path s)) \<and>
    filter is_unlock (trace (snd (unlock_databases_decrypt w conf_path s))) = filter is_unlock (trace s)"
proof -
  have "filter is_unlock (trace (snd (unlock_databases_decrypt w conf_path s))) = filter is_unlock (trace s)"
    by (intro decrypt_filter) auto
  then show ?thesis
    using assms
    by (cases "unlock_databases_decrypt w conf_path s") (simp add: unlock_databases_record_def)
qed

lemma records_returned:
  assumes "\<forall>t. sys_seteuid w t 0"
  shows "returned (unlock_databases_records w user_id ps s)"
  using records_returns [OF assms, of user_id ps s] by auto


section \<open>The notifications as a whole\<close>

lemma probe_returns:
  assumes "\<forall>t. sys_seteuid w t 0"
  shows "\<exists>kp_pid s'. unlock_databases_probe w user_id log_error s = Ret kp_pid s'"
proof -
  obtain s1 where 1: "change_euid w user_id s = Ret () s1"
    using change_euid_returns [of user_id w s] assms by auto
  obtain kp_pid s2 where g: "get_dbus_service_process_id w KP_DBUS_INTERFACE log_error s1 = (kp_pid, s2)"
    by (cases "get_dbus_service_process_id w KP_DBUS_INTERFACE log_error s1")
  obtain s3 where 3: "change_euid w 0 s2 = Ret () s3"
    using change_euid_returns [of 0 w s2] assms by auto
  show ?thesis
    using 1 g 3 by (simp add: unlock_databases_probe_def)
qed

lemma poll_returns:
  assumes "\<forall>t. sys_seteuid w t 0"
  shows "returned (unlock_databases_poll w user_id wait_secs i s)"
  using assms
proof (induction w user_id wait_secs i s rule: unlock_databases_poll.induct)
  case (1 w user_id wait_secs i s)
  show ?case
  proof (cases "i < wait_secs")
    case False
    then show ?thesis by (subst unlock_databases_poll.simps) simp
  next
    case True
    obtain kp_pid s3 where p: "unlock_databases_probe w user_id (i = wait_secs - 1) s = Ret kp_pid s3"
      using probe_returns [OF "1.prems"] by blast
    show ?thesis
    proof (cases "kp_pid = 0")
      case False
      then show ?thesis
        using True p by (subst unlock_databases_poll.simps) simp
    next
      case z: True
      have "returned (unlock_databases_poll w user_id wait_secs (i + 1) (emit (Sleep 1) s3))"
        using "1.IH" [OF True p] z "1.prems" by simp
      then show ?thesis
        using True p z by (subst unlock_databases_poll.simps) simp
    qed
  qed
qed

lemma unlock_databases_returns:
  assumes "\<forall>t. sys_seteuid w t 0"
  shows "returned (unlock_databases w user_id session_path wait_secs s0)"
proof (cases "fst (is_locked w session_path (emit (Call_unlock_databases user_id session_path wait_secs) s0))")
  case True
  then show ?thesis by (simp add: unlock_databases_locked)
next
  case False
  let ?s2 = "(snd (is_locked w session_path (emit (Call_unlock_databases user_id session_path wait_secs) s0)))
      \<lparr>DBUS_SESSION_BUS_ADDRESS :=
         Some (snprintf 128 (''unix:path=/run/user/'' @ printf_d user_id @ ''/bus''))\<rparr>"
  let ?dir = "snprintf 100 (KP_CONFIG_DIR w @ ''/'' @ printf_d user_id)"
  obtain kp_pid s3 where p: "unlock_databases_poll w user_id wait_secs 0 ?s2 = Ret kp_pid s3"
    using poll_returns [OF assms, of user_id wait_secs 0 ?s2]
    by (cases "unlock_databases_poll w user_id wait_secs 0 ?s2") auto
  obtain v s4 where v: "unlock_databases_verify w user_id ?dir kp_pid s3 = (v, s4)"
    by (cases "unlock_databases_verify w user_id ?dir kp_pid s3")
  have r: "returned (unlock_databases_records w user_id ps t)" for ps t
    using records_returned [OF assms] .
  show ?thesis
    using p v r
    by (cases v) (simp_all add: unlock_databases_unlocked [OF False] split: option.splits)
qed

lemma entry_returns:
  assumes "\<forall>t. sys_seteuid w t 0"
  shows "returned (handle_session_event_entry w kv d s)"
proof -
  obtain key val where kv: "kv = (key, val)" by (cases kv)
  have u: "\<exists>s'. unlock_databases w u p n t = Ret () s'" for u p n t
    using unlock_databases_returns [OF assms, of u p n t]
    by (cases "unlock_databases w u p n t") auto
  obtain s10 where a: "unlock_databases w (sd_user_id d) (sd_session_path d) 10
      (emit (Print Unlocking_after_unlock_event) s) = Ret () s10"
    using u by blast
  obtain s30 where b: "unlock_databases w (sd_user_id d) (sd_session_path d) 30
      (emit (Print Unlocking_after_activation_event) s) = Ret () s30"
    using u by blast
  show ?thesis
    using a b by (simp add: kv handle_session_event_entry_def Let_def)
qed

lemma event_returns:
  assumes "\<forall>t. sys_seteuid w t 0"
  shows "returned (handle_session_event w kvs d s)"
proof (induction kvs arbitrary: d s)
  case Nil
  show ?case by simp
next
  case (Cons kv kvs)
  obtain d1 s1 where "handle_session_event_entry w kv d s = Ret d1 s1"
    using entry_returns [OF assms, of kv d s]
    by (cases "handle_session_event_entry w kv d s") auto
  then show ?case using Cons.IH [of d1 s1] by simp
qed

lemma event_calls:
  "handle_session_event w kvs d s = Ret d' s' \<Longrightarrow>
     filter is_call (trace s') = filter is_call (trace s) @ triggered d kvs"
proof (induction kvs arbitrary: d s)
  case Nil
  then show ?case by simp
next
  case (Cons kv kvs)
  obtain key val where kv: "kv = (key, val)" by (cases kv)
  show ?case
  proof (cases "handle_session_event_entry w kv d s")
    case (Exit s1)
    then show ?thesis using Cons.prems by simp
  next
    case (Ret d1 s1)
    have d1: "d1 = (if key = ''LockedHint'' then d\<lparr>session_locked := g_variant_get_boolean val\<rparr>
               else if key = ''Active'' then d\<lparr>session_active := g_variant_get_boolean val\<rparr>
               else d)"
      using Ret kv entry_Ret [of w key val d s d1 s1] by simp
    have c1: "filter is_call (trace s1) =
      filter is_call (trace s) @
       (if key = ''LockedHint'' \<and> \<not> g_variant_get_boolean val \<and> session_locked d
        then [Call_unlock_databases (sd_user_id d) (sd_session_path d) 10]
        else if key = ''Active'' \<and> g_variant_get_boolean val \<and> \<not> session_active d \<and> \<not> session_locked d
        then [Call_unlock_databases (sd_user_id d) (sd_session_path d) 30]
        else [])"
      using entry_calls [of w key val d s] Ret kv by simp
    have "handle_session_event w kvs d1 s1 = Ret d' s'"
      using Cons.prems Ret by simp
    from Cons.IH [OF this] have "filter is_call (trace s') = filter is_call (trace s1) @ triggered d1 kvs" .
    then show ?thesis
      using c1 d1 kv by (auto split: if_splits)
  qed
qed

lemma event_calls_prefix:
  "prefix (filter is_call (trace (final (handle_session_event w kvs d s))))
     (filter is_call (trace s) @ triggered d kvs)"
proof (induction kvs arbitrary: d s)
  case Nil
  show ?case by simp
next
  case (Cons kv kvs)
  obtain key val where kv: "kv = (key, val)" by (cases kv)
  let ?one = "(if key = ''LockedHint'' \<and> \<not> g_variant_get_boolean val \<and> session_locked d
        then [Call_unlock_databases (sd_user_id d) (sd_session_path d) 10]
        else if key = ''Active'' \<and> g_variant_get_boolean val \<and> \<not> session_active d \<and> \<not> session_locked d
        then [Call_unlock_databases (sd_user_id d) (sd_session_path d) 30]
        else [])"
  have c1: "filter is_call (trace (final (handle_session_event_entry w kv d s))) =
      filter is_call (trace s) @ ?one"
    using entry_calls [of w key val d s] kv by simp
  show ?case
  proof (cases "handle_session_event_entry w kv d s")
    case (Exit s1)
    have "filter is_call (trace s1) = filter is_call (trace s) @ ?one"
      using c1 Exit by simp
    moreover have "triggered d (kv # kvs) = ?one @ triggered
        (if key = ''LockedHint'' then d\<lparr>session_locked := g_variant_get_boolean val\<rparr>
         else if key = ''Active'' then d\<lparr>session_active := g_variant_get_boolean val\<rparr>
         else d) kvs"
      using kv by auto
    ultimately show ?thesis
      using Exit by simp
  next
    case (Ret d1 s1)
    have d1: "d1 = (if key = ''LockedHint'' then d\<lparr>session_locked := g_variant_get_boolean val\<rparr>
               else if key = ''Active'' then d\<lparr>session_active := g_variant_get_boolean val\<rparr>
               else d)"
      using Ret kv entry_Ret [of w key val d s d1 s1] by simp
    have s1: "filter is_call (trace s1) = filter is_call (trace s) @ ?one"
      using c1 Ret by simp
    have t: "triggered d (kv # kvs) = ?one @ triggered d1 kvs"
      using kv d1 by auto
    have "prefix (filter is_call (trace (final (handle_session_event w kvs d1 s1))))
        (filter is_call (trace s1) @ triggered d1 kvs)"
      by (rule Cons.IH)
    then show ?thesis
      using Ret s1 t by simp
  qed
qed

text \<open>
  C3: for each changed property of a notification, \<open>handle_session_event\<close> enters
  \<open>unlock_databases\<close> once when the property is \<open>LockedHint\<close>, the new value is false
  and the recorded lock state is true (with a wait of 10 seconds), once when the property
  is \<open>Active\<close>, the new value is true, and the recorded active flag and lock state are
  both false (with a wait of 30 seconds), and not at all otherwise; in particular a change
  of \<open>Active\<close> while the recorded lock state is true enters it zero times. For a
  notification with any number of changed properties, the invocations of a callback that
  returns are exactly those of \<open>triggered\<close>, in order, each property judged against the
  state the properties before it left recorded; a callback cut short by the end of the
  process has made an initial part of them. The callback returns whenever \<open>seteuid(0)\<close>
  is not refused, and then the recorded lock state and active flag are the values the
  notification carried for them.
\<close>

theorem handle_session_event_triggers:
  "filter is_call (trace (final (handle_session_event_entry w (key, val) d s))) =
     filter is_call (trace s) @
       (if key = ''LockedHint'' \<and> \<not> g_variant_get_boolean val \<and> session_locked d
        then [Call_unlock_databases (sd_user_id d) (sd_session_path d) 10]
        else if key = ''Active'' \<and> g_variant_get_boolean val \<and> \<not> session_active d \<and> \<not> session_locked d
        then [Call_unlock_databases (sd_user_id d) (sd_session_path d) 30]
        else []) \<and>
   (session_locked d \<longrightarrow>
      filter is_call (trace (final (handle_session_event w [(''LockedHint'', GBoolean False)] d s))) =
        filter is_call (trace s) @ [Call_unlock_databases (sd_user_id d) (sd_session_path d) 10]) \<and>
   (\<not> session_active d \<and> \<not> session_locked d \<longrightarrow>
      filter is_call (trace (final (handle_session_event w [(''Active'', GBoolean True)] d s))) =
        filter is_call (trace s) @ [Call_unlock_databases (sd_user_id d) (sd_session_path d) 30]) \<and>
   (session_locked d \<longrightarrow>
      filter is_call (trace (final (handle_session_event w [(''Active'', val)] d s))) =
        filter is_call (trace s)) \<and>
   (\<forall>d' s'. handle_session_event w kvs d s = Ret d' s' \<longrightarrow>
      filter is_call (trace s') = filter is_call (trace s) @ triggered d kvs \<and>
      session_locked d' = last_value ''LockedHint'' kvs (session_locked d) \<and>
      session_active d' = last_value ''Active'' kvs (session_active d) \<and>
      sd_user_id d' = sd_user_id d \<and> sd_session_path d' = sd_session_path d) \<and>
   prefix (filter is_call (trace (final (handle_session_event w kvs d s))))
     (filter is_call (trace s) @ triggered d kvs) \<and>
   ((\<forall>t. sys_seteuid w t 0) \<longrightarrow> returned (handle_session_event w kvs d s))"
proof -
  have a: "session_locked d \<Longrightarrow>
      filter is_call (trace (final (handle_session_event w [(''LockedHint'', GBoolean False)] d s))) =
        filter is_call (trace s) @ [Call_unlock_databases (sd_user_id d) (sd_session_path d) 10]"
    unfolding single_final by (simp add: entry_calls)
  have b: "\<not> session_active d \<and> \<not> session_locked d \<Longrightarrow>
      filter is_call (trace (final (handle_session_event w [(''Active'', GBoolean True)] d s))) =
        filter is_call (trace s) @ [Call_unlock_databases (sd_user_id d) (sd_session_path d) 30]"
    unfolding single_final by (simp add: entry_calls)
  have c: "session_locked d \<Longrightarrow>
      filter is_call (trace (final (handle_session_event w [(''Active'', val)] d s))) =
        filter is_call (trace s)"
    unfolding single_final by (simp add: entry_calls)
  have e: "(\<forall>t. sys_seteuid w t 0) \<longrightarrow> returned (handle_session_event w kvs d s)"
    using event_returns [of w kvs d s] by blast
  show ?thesis
    using entry_calls [of w key val d s] a b c event_Ret [of w kvs d s]
      event_calls [of w kvs d s] event_calls_prefix [of w kvs d s] e
    by blast
qed

theorem handle_session_event_triggers_witness:
  "session_locked session_locked_active \<and>
   filter is_call (trace (final (handle_session_event world_ok [(''LockedHint'', GBoolean False)]
       session_locked_active root_proc))) =
     [Call_unlock_databases 1000 ''/session/c3'' 10] \<and>
   \<not> session_active session_unlocked_inactive \<and> \<not> session_locked session_unlocked_inactive \<and>
   filter is_call (trace (final (handle_session_event world_ok [(''Active'', GBoolean True)]
       session_unlocked_inactive root_proc))) =
     [Call_unlock_databases 1000 ''/session/c3'' 30] \<and>
   session_locked session_locked_inactive \<and>
   filter is_call (trace (final (handle_session_event world_ok [(''Active'', GBoolean True)]
       session_locked_inactive root_proc))) = [] \<and>
   (\<forall>t. sys_seteuid world_ok t 0) \<and>
   returned (handle_session_event world_ok
     [(''LockedHint'', GBoolean False), (''Active'', GBoolean True)] session_locked_inactive root_proc) \<and>
   filter is_call (trace (final (handle_session_event world_ok
     [(''LockedHint'', GBoolean False), (''Active'', GBoolean True)] session_locked_inactive root_proc))) =
     [Call_unlock_databases 1000 ''/session/c3'' 10, Call_unlock_databases 1000 ''/session/c3'' 30] \<and>
   map_option session_locked (ret_value (handle_session_event world_ok
     [(''LockedHint'', GBoolean False), (''Active'', GBoolean True)] session_locked_inactive root_proc)) =
     Some False \<and>
   map_option session_active (ret_value (handle_session_event world_ok
     [(''LockedHint'', GBoolean False), (''Active'', GBoolean True)] session_locked_inactive root_proc)) =
     Some True \<and>
   filter is_call (trace (final (handle_session_event world_ok
     [(''Active'', GBoolean True), (''LockedHint'', GBoolean False)] session_locked_inactive root_proc))) =
     [Call_unlock_databases 1000 ''/session/c3'' 10]"
proof -
  let ?two = "[(''LockedHint'', GBoolean False), (''Active'', GBoolean True)]"
  let ?owt = "[(''Active'', GBoolean True), (''LockedHint'', GBoolean False)]"
  let ?h = "handle_session_event world_ok ?two session_locked_inactive root_proc"
  let ?g = "handle_session_event world_ok ?owt session_locked_inactive root_proc"
  have e: "filter is_call (trace root_proc) = []"
    by (simp add: root_proc_def)
  have k: "\<forall>t. sys_seteuid world_ok t 0"
    by (simp add: world_ok_def)
  have l: "session_locked session_locked_active" "session_locked session_locked_inactive"
    "\<not> session_active session_unlocked_inactive" "\<not> session_locked session_unlocked_inactive"
    "session_active session_locked_active" "\<not> session_active session_locked_inactive"
    by (simp_all add: session_locked_active_def session_locked_inactive_def
        session_unlocked_inactive_def session_unlocked_active_def)
  have p: "sd_user_id session_locked_active = 1000" "sd_session_path session_locked_active = ''/session/c3''"
    "sd_user_id session_unlocked_inactive = 1000" "sd_session_path session_unlocked_inactive = ''/session/c3''"
    "sd_user_id session_locked_inactive = 1000" "sd_session_path session_locked_inactive = ''/session/c3''"
    by (simp_all add: session_locked_active_def session_unlocked_inactive_def
        session_locked_inactive_def session_unlocked_active_def)
  note t1 = handle_session_event_triggers [of world_ok "''LockedHint''" "GBoolean False"
      session_locked_active root_proc "[]"]
  note t2 = handle_session_event_triggers [of world_ok "''Active''" "GBoolean True"
      session_unlocked_inactive root_proc "[]"]
  note t3 = handle_session_event_triggers [of world_ok "''Active''" "GBoolean True"
      session_locked_inactive root_proc ?two]
  note t4 = handle_session_event_triggers [of world_ok "''Active''" "GBoolean True"
      session_locked_inactive root_proc ?owt]
  have 1: "filter is_call (trace (final (handle_session_event world_ok [(''LockedHint'', GBoolean False)]
       session_locked_active root_proc))) = [Call_unlock_databases 1000 ''/session/c3'' 10]"
    using t1 l p e by simp
  have 2: "filter is_call (trace (final (handle_session_event world_ok [(''Active'', GBoolean True)]
       session_unlocked_inactive root_proc))) = [Call_unlock_databases 1000 ''/session/c3'' 30]"
    using t2 l p e by simp
  have 3: "filter is_call (trace (final (handle_session_event world_ok [(''Active'', GBoolean True)]
       session_locked_inactive root_proc))) = []"
    using t3 l e by simp
  have rh: "returned ?h"
    using t3 k by blast
  then obtain d' s' where h: "?h = Ret d' s'"
    by (cases ?h) auto
  have "filter is_call (trace s') = filter is_call (trace root_proc) @ triggered session_locked_inactive ?two \<and>
      session_locked d' = last_value ''LockedHint'' ?two (session_locked session_locked_inactive) \<and>
      session_active d' = last_value ''Active'' ?two (session_active session_locked_inactive)"
    using t3 h by blast
  then have 4: "filter is_call (trace s') =
      [Call_unlock_databases 1000 ''/session/c3'' 10, Call_unlock_databases 1000 ''/session/c3'' 30]"
    and 5: "\<not> session_locked d'" "session_active d'"
    using e l p by simp_all
  have "returned ?g"
    using t4 k by blast
  then obtain d'' s'' where g: "?g = Ret d'' s''"
    by (cases ?g) auto
  have "filter is_call (trace s'') = filter is_call (trace root_proc) @ triggered session_locked_inactive ?owt"
    using t4 g by blast
  then have 6: "filter is_call (trace s'') = [Call_unlock_databases 1000 ''/session/c3'' 10]"
    using e l p by simp
  show ?thesis
    using l 1 2 3 k rh h 4 5 g 6 by simp
qed

section \<open>Failures in the loop over the configurations\<close>

lemma open_failures_logged:
  assumes "change_euid w user_id s = Ret () s3"
  shows "(\<not> dbus_session_bus w (now s3) (euid s3) \<longrightarrow>
      unlock_databases_open w user_id kdbx passwd key s =
        change_euid w 0 (emit (Print Failed_to_connect_to_session_bus)
                          (emit (Bus_get_session (euid s3)) s3))) \<and>
    (dbus_session_bus w (now s3) (euid s3) \<and> \<not> dbus_openDatabase w (Suc (now s3)) kdbx passwd key \<longrightarrow>
      unlock_databases_open w user_id kdbx passwd key s =
        change_euid w 0 (emit (Print (Failed_to_unlock_database kdbx))
                          (emit (OpenDatabase kdbx passwd key)
                            (emit (Bus_get_session (euid s3)) s3))))"
  using assms by (simp add: unlock_databases_open_def Let_def)

text \<open>
  What holds of the loop over the configurations whatever fails: when the loop returns,
  every configuration of the list was opened, in order, and the loop returns unless
  \<open>seteuid(0)\<close> is refused. A configuration that cannot be opened, whose pipeline cannot
  be started, or whose output fills the buffer of \<open>MAX_PASSWORD_SIZE\<close> bytes is given up
  with a printed line and without a call of \<open>openDatabase\<close>.
\<close>

lemma unlock_databases_records_continue:
  "(\<forall>s'. unlock_databases_records w user_id gl_pathv s = Ret () s' \<longrightarrow>
      filter is_fopen (trace s') = filter is_fopen (trace s) @ map Fopen gl_pathv) \<and>
   ((\<forall>t. sys_seteuid w t 0) \<longrightarrow> returned (unlock_databases_records w user_id gl_pathv s)) \<and>
   (fst (unlock_databases_decrypt w conf_path s) = None \<longleftrightarrow>
      fs_file w (now s) conf_path = Cannot_open \<or>
      (case sys_popen w (Suc (now s))
              (snd (snd (read_conf (file_stream (fs_file w (now s) conf_path)) [] [] 0)))
              conf_path (conf_name_of conf_path) of
         None \<Rightarrow> True
       | Some (output, status) \<Rightarrow> MAX_PASSWORD_SIZE \<le> length output)) \<and>
   (fst (unlock_databases_decrypt w conf_path s) = None \<longrightarrow>
      unlock_databases_record w user_id conf_path s =
        Ret () (snd (unlock_databases_decrypt w conf_path s)) \<and>
      filter is_unlock (trace (snd (unlock_databases_decrypt w conf_path s))) =
        filter is_unlock (trace s) \<and>
      (\<exists>m. last (trace (snd (unlock_databases_decrypt w conf_path s))) = Print m)) \<and>
   filter is_fopen (trace (final (unlock_databases_record w user_id conf_path s))) =
     filter is_fopen (trace s) @ [Fopen conf_path]"
  using records_fopen [of w user_id gl_pathv s] records_returned [of w user_id gl_pathv s]
    decrypt_None_iff [of w conf_path s] record_skipped [of w conf_path s user_id]
    decrypt_None_logged [of w conf_path s] record_fopen [of w user_id conf_path s]
  by blast

text \<open>
  C6 does not hold of the code where the decryption itself fails. With three
  configurations of which the second cannot be decrypted (\<open>systemd-creds\<close> writes nothing
  and exits with a failure status), the first and the third are still processed, but the
  second is not skipped and its failure to decrypt is not printed: the status of the
  pipeline is never read, so \<open>openDatabase\<close> is called for the second database with the
  empty password, and the only line printed is that of the rejected unlock.
\<close>

theorem failed_decryption_is_not_skipped:
  "sys_popen world_decrypt_fails 1 3 ''/c/b.conf'' ''b'' = Some ([], 256) \<and>
   fst (unlock_databases_decrypt world_decrypt_fails ''/c/b.conf'' root_proc) =
     Some (''/home/ann/a.kdbx'', [], []) \<and>
   trace (final (unlock_databases_records world_decrypt_fails 1000
     [''/c/a.conf'', ''/c/b.conf'', ''/c/c.conf''] root_proc)) =
     [Fopen ''/c/a.conf'', Popen_decrypt 3 ''/c/a.conf'' ''a'', Seteuid 1000, Bus_get_session 1000,
      OpenDatabase ''/home/ann/a.kdbx'' ''secret'' [], Seteuid 0,
      Fopen ''/c/b.conf'', Popen_decrypt 3 ''/c/b.conf'' ''b'', Seteuid 1000, Bus_get_session 1000,
      OpenDatabase ''/home/ann/a.kdbx'' [] [], Print (Failed_to_unlock_database ''/home/ann/a.kdbx''),
      Seteuid 0,
      Fopen ''/c/c.conf'', Popen_decrypt 3 ''/c/c.conf'' ''c'', Seteuid 1000, Bus_get_session 1000,
      OpenDatabase ''/home/ann/a.kdbx'' ''secret'' [], Seteuid 0]"
  by code_simp

section \<open>The selection of the session\<close>

lemma select_session_loop_find:
  "select_session_loop valid user_id sessions =
     map_option (\<lambda>(sid, uid, name, seat, session_path). session_path)
       (find (\<lambda>(sid, uid, name, seat, session_path). uid = user_id \<and> valid session_path) sessions)"
  by (induction valid user_id sessions rule: select_session_loop.induct) auto

lemma select_session_loop_Some:
  "select_session_loop valid user_id sessions = Some p \<Longrightarrow>
     valid p \<and> (\<exists>sid name seat. (sid, user_id, name, seat, p) \<in> set sessions)"
  by (induction valid user_id sessions rule: select_session_loop.induct)
     (auto split: if_splits)

lemma select_session_fst:
  "fst (select_session w user_id s) =
     (case dbus_ListSessions w (now s) of
        None \<Rightarrow> None
      | Some sessions \<Rightarrow> select_session_loop (session_valid_for_unlock w (now s)) user_id sessions)"
  by (simp add: select_session_def Let_def split: option.splits)

lemma select_session_lists:
  "filter is_list_sessions (trace (snd (select_session w user_id s))) =
     filter is_list_sessions (trace s) @ [ListSessions]"
  by (simp add: select_session_def Let_def split: option.splits)

lemma select_session_slept [simp]:
  "slept (trace (snd (select_session w user_id s))) = slept (trace s)"
  by (simp add: select_session_def Let_def split: option.splits)

lemma select_session_now: "now s < now (snd (select_session w user_id s))"
  by (simp add: select_session_def Let_def split: option.splits)

lemma main_select_session_bounded:
  "length (filter is_list_sessions (trace (snd (main_select_session w user_id i s)))) \<le>
     length (filter is_list_sessions (trace s)) + nat (30 - i) \<and>
   slept (trace (snd (main_select_session w user_id i s))) \<le> slept (trace s) + nat (30 - i) \<and>
   length (filter is_list_sessions (trace (snd (main_select_session w user_id i s)))) + slept (trace s) \<le>
     length (filter is_list_sessions (trace s)) + slept (trace (snd (main_select_session w user_id i s))) + 1 \<and>
   (fst (main_select_session w user_id i s) = None \<longrightarrow>
      length (filter is_list_sessions (trace (snd (main_select_session w user_id i s)))) =
        length (filter is_list_sessions (trace s)) + nat (30 - i))"
proof (induction w user_id i s rule: main_select_session.induct)
  case (1 w user_id i s)
  show ?case
  proof (cases "i < 30")
    case False
    then show ?thesis by (subst (1 2 3 4 5) main_select_session.simps) simp
  next
    case True
    obtain r s1 where sel: "select_session w user_id s = (r, s1)"
      by (cases "select_session w user_id s")
    have l: "filter is_list_sessions (trace s1) = filter is_list_sessions (trace s) @ [ListSessions]"
      using select_session_lists [of w user_id s] sel by simp
    have sl: "slept (trace s1) = slept (trace s)"
      using select_session_slept [of w user_id s] unfolding sel by simp
    show ?thesis
    proof (cases r)
      case (Some p)
      have "main_select_session w user_id i s = (Some p, s1)"
        using True sel Some by (subst main_select_session.simps) simp
      then show ?thesis using l sl True by simp
    next
      case None
      have eq: "main_select_session w user_id i s =
          main_select_session w user_id (i + 1) (emit (Sleep 1) s1)"
        using True sel None by (subst main_select_session.simps) simp
      have ih: "length (filter is_list_sessions (trace (snd (main_select_session w user_id (i + 1) (emit (Sleep 1) s1))))) \<le>
          length (filter is_list_sessions (trace (emit (Sleep 1) s1))) + nat (30 - (i + 1)) \<and>
        slept (trace (snd (main_select_session w user_id (i + 1) (emit (Sleep 1) s1)))) \<le>
          slept (trace (emit (Sleep 1) s1)) + nat (30 - (i + 1)) \<and>
        length (filter is_list_sessions (trace (snd (main_select_session w user_id (i + 1) (emit (Sleep 1) s1))))) +
            slept (trace (emit (Sleep 1) s1)) \<le>
          length (filter is_list_sessions (trace (emit (Sleep 1) s1))) +
            slept (trace (snd (main_select_session w user_id (i + 1) (emit (Sleep 1) s1)))) + 1 \<and>
        (fst (main_select_session w user_id (i + 1) (emit (Sleep 1) s1)) = None \<longrightarrow>
           length (filter is_list_sessions (trace (snd (main_select_session w user_id (i + 1) (emit (Sleep 1) s1))))) =
             length (filter is_list_sessions (trace (emit (Sleep 1) s1))) + nat (30 - (i + 1)))"
        using "1.IH" [OF True sel [symmetric] None] .
      show ?thesis
        unfolding eq using ih l sl True by auto
    qed
  qed
qed

lemma main_select_session_Some:
  "fst (main_select_session w user_id i s) = Some p \<Longrightarrow>
     \<exists>t sessions sid name seat. now s \<le> t \<and> t < now (snd (main_select_session w user_id i s)) \<and>
       dbus_ListSessions w t = Some sessions \<and>
       (sid, user_id, name, seat, p) \<in> set sessions \<and> session_valid_for_unlock w t p"
proof (induction w user_id i s rule: main_select_session.induct)
  case (1 w user_id i s)
  show ?case
  proof (cases "i < 30")
    case False
    then show ?thesis
      using "1.prems" by (subst (asm) main_select_session.simps) simp
  next
    case True
    obtain r s1 where sel: "select_session w user_id s = (r, s1)"
      by (cases "select_session w user_id s")
    have lt: "now s < now s1"
      using select_session_now [of s w user_id] sel by simp
    show ?thesis
    proof (cases r)
      case (Some q)
      have eq: "main_select_session w user_id i s = (Some q, s1)"
        using True sel Some by (subst main_select_session.simps) simp
      then have q: "q = p" using "1.prems" by simp
      have "fst (select_session w user_id s) = Some p"
        using sel Some q by simp
      then obtain sessions where ls: "dbus_ListSessions w (now s) = Some sessions"
        and lp: "select_session_loop (session_valid_for_unlock w (now s)) user_id sessions = Some p"
        by (auto simp: select_session_fst split: option.splits)
      from select_session_loop_Some [OF lp] ls lt show ?thesis
        unfolding eq by (intro exI [of _ "now s"]) auto
    next
      case None
      have eq: "main_select_session w user_id i s =
          main_select_session w user_id (i + 1) (emit (Sleep 1) s1)"
        using True sel None by (subst main_select_session.simps) simp
      have "fst (main_select_session w user_id (i + 1) (emit (Sleep 1) s1)) = Some p"
        using "1.prems" eq by simp
      from "1.IH" [OF True sel [symmetric] None this]
      obtain t sessions sid name seat where
        "now (emit (Sleep 1) s1) \<le> t"
        "t < now (snd (main_select_session w user_id (i + 1) (emit (Sleep 1) s1)))"
        "dbus_ListSessions w t = Some sessions"
        "(sid, user_id, name, seat, p) \<in> set sessions" "session_valid_for_unlock w t p"
        by blast
      then show ?thesis
        unfolding eq using lt by (intro exI [of _ t]) auto
    qed
  qed
qed

text \<open>
  C7: \<open>select_session\<close> answers the path of the first entry of the \<open>ListSessions\<close>
  reply whose user id is the requested one and which \<open>session_valid_for_unlock\<close>
  accepts: type \<open>x11\<close> or \<open>wayland\<close>, not remote, active; it answers nothing when the
  call fails or no entry qualifies, and never a session that misses one of the conditions.
  At startup \<open>main\<close> takes the first answer it gets; it asks at most 30 times, sleeping
  one second after each attempt that found nothing, and gives up only after the thirtieth.
\<close>

theorem select_session_first_eligible:
  "fst (select_session w user_id s) =
     (case dbus_ListSessions w (now s) of
        None \<Rightarrow> None
      | Some sessions \<Rightarrow>
          map_option (\<lambda>(sid, uid, name, seat, session_path). session_path)
            (find (\<lambda>(sid, uid, name, seat, session_path).
                     uid = user_id \<and>
                     (Type (dbus_session_props w (now s) session_path) = ''x11'' \<or>
                      Type (dbus_session_props w (now s) session_path) = ''wayland'') \<and>
                     \<not> Remote (dbus_session_props w (now s) session_path) \<and>
                     Active (dbus_session_props w (now s) session_path))
               sessions)) \<and>
   (\<forall>p. fst (select_session w user_id s) = Some p \<longrightarrow>
      (\<exists>sessions sid name seat.
         dbus_ListSessions w (now s) = Some sessions \<and> (sid, user_id, name, seat, p) \<in> set sessions) \<and>
      (Type (dbus_session_props w (now s) p) = ''x11'' \<or>
       Type (dbus_session_props w (now s) p) = ''wayland'') \<and>
      \<not> Remote (dbus_session_props w (now s) p) \<and> Active (dbus_session_props w (now s) p)) \<and>
   length (filter is_list_sessions (trace (snd (main_select_session w user_id 0 s)))) \<le>
     length (filter is_list_sessions (trace s)) + 30 \<and>
   slept (trace (snd (main_select_session w user_id 0 s))) \<le> slept (trace s) + 30 \<and>
   length (filter is_list_sessions (trace (snd (main_select_session w user_id 0 s)))) + slept (trace s) \<le>
     length (filter is_list_sessions (trace s)) + slept (trace (snd (main_select_session w user_id 0 s))) + 1 \<and>
   (fst (main_select_session w user_id 0 s) = None \<longrightarrow>
      length (filter is_list_sessions (trace (snd (main_select_session w user_id 0 s)))) =
        length (filter is_list_sessions (trace s)) + 30) \<and>
   (\<forall>p. fst (main_select_session w user_id 0 s) = Some p \<longrightarrow>
      (\<exists>t sessions sid name seat.
         dbus_ListSessions w t = Some sessions \<and> (sid, user_id, name, seat, p) \<in> set sessions \<and>
         session_valid_for_unlock w t p)) \<and>
   (\<forall>i p. i < 30 \<and> fst (select_session w user_id s) = Some p \<longrightarrow>
      main_select_session w user_id i s = select_session w user_id s) \<and>
   (\<forall>i. i < 30 \<and> fst (select_session w user_id s) = None \<longrightarrow>
      main_select_session w user_id i s =
        main_select_session w user_id (i + 1) (emit (Sleep 1) (snd (select_session w user_id s))))"
proof -
  have d: "main_select_session w user_id i s = select_session w user_id s"
    if "i < 30" and "fst (select_session w user_id s) = Some p" for i p
    using that
    by (cases "select_session w user_id s") (subst main_select_session.simps, simp)
  have f: "main_select_session w user_id i s =
        main_select_session w user_id (i + 1) (emit (Sleep 1) (snd (select_session w user_id s)))"
    if "i < 30" and "fst (select_session w user_id s) = None" for i
    using that
    by (cases "select_session w user_id s") (subst main_select_session.simps, simp)
  have a: "fst (select_session w user_id s) =
     (case dbus_ListSessions w (now s) of
        None \<Rightarrow> None
      | Some sessions \<Rightarrow>
          map_option (\<lambda>(sid, uid, name, seat, session_path). session_path)
            (find (\<lambda>(sid, uid, name, seat, session_path).
                     uid = user_id \<and>
                     (Type (dbus_session_props w (now s) session_path) = ''x11'' \<or>
                      Type (dbus_session_props w (now s) session_path) = ''wayland'') \<and>
                     \<not> Remote (dbus_session_props w (now s) session_path) \<and>
                     Active (dbus_session_props w (now s) session_path))
               sessions))"
    by (simp add: select_session_fst select_session_loop_find session_valid_for_unlock_def Let_def
        split: option.splits)
  have b: "(\<exists>sessions sid name seat.
         dbus_ListSessions w (now s) = Some sessions \<and> (sid, user_id, name, seat, p) \<in> set sessions) \<and>
      (Type (dbus_session_props w (now s) p) = ''x11'' \<or>
       Type (dbus_session_props w (now s) p) = ''wayland'') \<and>
      \<not> Remote (dbus_session_props w (now s) p) \<and> Active (dbus_session_props w (now s) p)"
    if sel: "fst (select_session w user_id s) = Some p" for p
  proof -
    obtain sessions where ls: "dbus_ListSessions w (now s) = Some sessions"
      and lp: "select_session_loop (session_valid_for_unlock w (now s)) user_id sessions = Some p"
      using sel by (auto simp: select_session_fst split: option.splits)
    from select_session_loop_Some [OF lp] ls show ?thesis
      by (auto simp: session_valid_for_unlock_def Let_def)
  qed
  have c: "\<exists>t sessions sid name seat.
         dbus_ListSessions w t = Some sessions \<and> (sid, user_id, name, seat, p) \<in> set sessions \<and>
         session_valid_for_unlock w t p"
    if "fst (main_select_session w user_id 0 s) = Some p" for p
    using main_select_session_Some [OF that] by blast
  have g: "length (filter is_list_sessions (trace (snd (main_select_session w user_id 0 s)))) \<le>
     length (filter is_list_sessions (trace s)) + 30 \<and>
   slept (trace (snd (main_select_session w user_id 0 s))) \<le> slept (trace s) + 30 \<and>
   length (filter is_list_sessions (trace (snd (main_select_session w user_id 0 s)))) + slept (trace s) \<le>
     length (filter is_list_sessions (trace s)) + slept (trace (snd (main_select_session w user_id 0 s))) + 1 \<and>
   (fst (main_select_session w user_id 0 s) = None \<longrightarrow>
      length (filter is_list_sessions (trace (snd (main_select_session w user_id 0 s)))) =
        length (filter is_list_sessions (trace s)) + 30)"
    using main_select_session_bounded [of w user_id 0 s] by simp
  show ?thesis
    using a b c d f g by blast
qed

lemma main_select_session_None:
  "(\<And>t. fst (select_session w user_id t) = None) \<Longrightarrow>
     fst (main_select_session w user_id i s) = None"
proof (induction w user_id i s rule: main_select_session.induct)
  case (1 w user_id i s)
  show ?case
  proof (cases "i < 30")
    case False
    then show ?thesis by (subst main_select_session.simps) simp
  next
    case True
    obtain r s1 where sel: "select_session w user_id s = (r, s1)"
      by (cases "select_session w user_id s")
    have None: "r = None"
      using "1.prems" [of s] sel by simp
    have eq: "main_select_session w user_id i s =
        main_select_session w user_id (i + 1) (emit (Sleep 1) s1)"
      using True sel None by (subst main_select_session.simps) simp
    show ?thesis
      unfolding eq using "1.IH" [OF True sel [symmetric] None] "1.prems" by simp
  qed
qed

theorem select_session_first_eligible_witness:
  "fst (select_session world_ok 1000 root_proc) = Some ''/session/c3'' \<and>
   Type (dbus_session_props world_ok (now root_proc) ''/session/c3'') = ''wayland'' \<and>
   \<not> Remote (dbus_session_props world_ok (now root_proc) ''/session/c3'') \<and>
   Active (dbus_session_props world_ok (now root_proc) ''/session/c3'') \<and>
   fst (main_select_session world_ok 1000 0 root_proc) = Some ''/session/c3'' \<and>
   fst (main_select_session world_nosession 1000 0 root_proc) = None \<and>
   length (filter is_list_sessions (trace (snd (main_select_session world_nosession 1000 0 root_proc)))) = 30 \<and>
   slept (trace (snd (main_select_session world_nosession 1000 0 root_proc))) \<le> 30"
proof -
  have e: "filter is_list_sessions (trace root_proc) = []" "slept (trace root_proc) = 0"
    by (simp_all add: root_proc_def)
  have 1: "fst (select_session world_ok 1000 root_proc) = Some ''/session/c3''"
    by code_simp
  have 2: "fst (main_select_session world_ok 1000 0 root_proc) = Some ''/session/c3''"
    by code_simp
  have "fst (select_session world_nosession 1000 t) = None" for t
    by (simp add: select_session_fst world_nosession_def world_ok_def)
  then have 3: "fst (main_select_session world_nosession 1000 0 root_proc) = None"
    by (rule main_select_session_None)
  note ok = select_session_first_eligible [of world_ok 1000 root_proc]
  note no = select_session_first_eligible [of world_nosession 1000 root_proc]
  have 5: "(Type (dbus_session_props world_ok (now root_proc) ''/session/c3'') = ''x11'' \<or>
       Type (dbus_session_props world_ok (now root_proc) ''/session/c3'') = ''wayland'') \<and>
      \<not> Remote (dbus_session_props world_ok (now root_proc) ''/session/c3'') \<and>
      Active (dbus_session_props world_ok (now root_proc) ''/session/c3'')"
    using ok 1 by blast
  have 6: "Type (dbus_session_props world_ok (now root_proc) ''/session/c3'') = ''wayland''"
    by (simp add: world_ok_def)
  have 7: "length (filter is_list_sessions (trace (snd (main_select_session world_nosession 1000 0 root_proc)))) =
      length (filter is_list_sessions (trace root_proc)) + 30"
    using no 3 by blast
  have 8: "slept (trace (snd (main_select_session world_nosession 1000 0 root_proc))) \<le>
      slept (trace root_proc) + 30"
    using no by blast
  show ?thesis
    using 1 2 3 5 6 7 8 e by simp
qed

section \<open>The state recorded when monitoring starts\<close>

lemma unlock_databases_now: "now s \<le> now (final (unlock_databases w user_id session_path wait_secs s))"
  using unlock_databases_prefix [of s user_id session_path wait_secs w]
  by (auto simp: now_def dest!: prefix_length_le)

text \<open>
  C8, as the code has it: when \<open>main\<close> goes on to monitor a session, the recorded state
  is the constant pair of the initialiser, lock state false and active flag true, whatever
  the session's \<open>LockedHint\<close> is at that moment. The session is one that
  \<open>select_session\<close> returned, so it was active, graphical and local at the earlier moment
  of its selection.
\<close>

theorem main_start_initial_state:
  "main_start w user_id s = Ret (Some d) s' \<longrightarrow>
     session_locked d = False \<and> session_active d = True \<and> sd_user_id d = user_id \<and>
     (\<exists>t. t < now s' \<and> session_valid_for_unlock w t (sd_session_path d))"
proof
  assume m: "main_start w user_id s = Ret (Some d) s'"
  obtain r s1 where sel: "main_select_session w user_id 0 s = (r, s1)"
    by (cases "main_select_session w user_id 0 s")
  show "session_locked d = False \<and> session_active d = True \<and> sd_user_id d = user_id \<and>
     (\<exists>t. t < now s' \<and> session_valid_for_unlock w t (sd_session_path d))"
  proof (cases r)
    case None
    then show ?thesis using m sel by (simp add: main_start_def)
  next
    case (Some p)
    let ?u = "unlock_databases w user_id p 60 (emit (Print (Startup_unlocking user_id)) s1)"
    obtain s2 where u: "?u = Ret () s2"
      using m sel Some by (cases ?u) (simp_all add: main_start_def)
    have d: "d = \<lparr>sd_session_path = p, sd_user_id = user_id, session_locked = False, session_active = True\<rparr>"
      and s': "s' = emit (Print (Monitoring_session p user_id)) s2"
      using m sel Some u by (simp_all add: main_start_def)
    have "fst (main_select_session w user_id 0 s) = Some p"
      using sel Some by simp
    from main_select_session_Some [OF this]
    obtain t where t: "t < now s1" "session_valid_for_unlock w t p"
      using sel by auto
    have "now (emit (Print (Startup_unlocking user_id)) s1) \<le> now s2"
      using unlock_databases_now [of "emit (Print (Startup_unlocking user_id)) s1" w user_id p 60] u
      by simp
    then have "t < now s'"
      using t(1) s' by simp
    then show ?thesis
      using d t(2) by auto
  qed
qed

theorem main_start_initial_state_witness:
  "returned (main_start world_ok 1000 root_proc) \<and>
   map_option (map_option session_locked) (ret_value (main_start world_ok 1000 root_proc)) = Some (Some False) \<and>
   map_option (map_option session_active) (ret_value (main_start world_ok 1000 root_proc)) = Some (Some True) \<and>
   map_option (map_option sd_user_id) (ret_value (main_start world_ok 1000 root_proc)) = Some (Some 1000) \<and>
   map_option (map_option sd_session_path) (ret_value (main_start world_ok 1000 root_proc)) =
     Some (Some ''/session/c3'')"
proof -
  let ?m = "main_start world_ok 1000 root_proc"
  have p: "map_option (map_option sd_session_path) (ret_value ?m) = Some (Some ''/session/c3'')"
    by code_simp
  then obtain d s' where m: "?m = Ret (Some d) s'" and d: "sd_session_path d = ''/session/c3''"
    by (cases ?m) auto
  from main_start_initial_state [of world_ok 1000 root_proc d s'] m
  have "session_locked d = False \<and> session_active d = True \<and> sd_user_id d = 1000"
    by blast
  then show ?thesis
    using m d by simp
qed

text \<open>
  C8 as the spec states it fails: for a session that is locked when monitoring starts, the
  recorded lock state is false all the same.
\<close>

theorem initial_lock_state_not_read:
  "map_option (map_option sd_session_path) (ret_value (main_start world_locked 1000 root_proc)) =
     Some (Some ''/session/c3'') \<and>
   map_option (map_option session_locked) (ret_value (main_start world_locked 1000 root_proc)) =
     Some (Some False) \<and>
   dbus_LockedHint world_locked (now (final (main_start world_locked 1000 root_proc))) ''/session/c3'' =
     Some True"
  by code_simp


end
